theory Spec2Isabelle
  imports Main "HOL-Library.Word"
begin

unbundle bit_operations_syntax

section \<open>Query planner of where.c: data model\<close>

text \<open>
  \<^verbatim>\<open>typedef unsigned short int WhereCost;\<close> holds ten times the base-two logarithm of
  a row count or cost.  \<^verbatim>\<open>Bitmask\<close> is the 64-bit dependency word; \<^verbatim>\<open>BMS\<close> is its
  number of bits.
\<close>

type_synonym WhereCost = "16 word"
type_synonym Bitmask = "64 word"

section \<open>Expressions and WHERE terms\<close>

text \<open>
  The token codes of the parser that where.c tests.  \<open>TK_OTHER\<close> stands for every code
  that the modelled functions do not distinguish.
\<close>

datatype tk =
    TK_COLUMN | TK_STRING | TK_VARIABLE | TK_REGISTER | TK_NULL
  | TK_EQ | TK_LT | TK_LE | TK_GT | TK_GE | TK_IN | TK_ISNULL
  | TK_OR | TK_AND | TK_COLLATE | TK_AS | TK_FUNCTION | TK_BETWEEN | TK_MATCH | TK_NOTNULL
  | TK_OTHER

text \<open>
  The fields of \<^verbatim>\<open>struct Expr\<close> that where.c reads or writes in the modelled functions:
  \<^verbatim>\<open>op\<close>, \<^verbatim>\<open>op2\<close>, \<^verbatim>\<open>pLeft\<close>, \<^verbatim>\<open>pRight\<close>, \<^verbatim>\<open>x.pList\<close>, \<^verbatim>\<open>iTable\<close>,
  \<^verbatim>\<open>iColumn\<close>, \<^verbatim>\<open>u.zToken\<close> (the bytes before the terminating zero), the flag
  \<^verbatim>\<open>EP_FromJoin\<close> and \<^verbatim>\<open>iRightJoinTable\<close>.  Three more components stand for what
  functions outside where.c compute from a node: \<open>ex_aff\<close> is the result of
  \<^verbatim>\<open>sqlite4ExprAffinity\<close>, \<open>ex_coll\<close> the collation set by
  \<^verbatim>\<open>sqlite4ExprSetCollByToken\<close>, and \<open>ex_isVirtual\<close> the result of
  \<^verbatim>\<open>IsVirtual(pExpr->pTab)\<close>.  The last component is the flag \<^verbatim>\<open>EP_ExpCollate\<close>.
  Expressions with a subquery (\<^verbatim>\<open>EP_xIsSelect\<close>) are outside the model.
\<close>

datatype Expr = Expr
  (ex_op: tk) (ex_op2: tk)
  (ex_pLeft: "Expr option") (ex_pRight: "Expr option") (ex_pList: "Expr list")
  (ex_iTable: int) (ex_iColumn: int) (ex_zToken: "8 word list")
  (ex_fromJoin: bool) (ex_iRightJoinTable: int)
  (ex_aff: "8 word") (ex_coll: "string option") (ex_isVirtual: bool) (ex_expCollate: bool)

text \<open>
  A column reference, a string literal and a node with two operands, with every other
  component empty.
\<close>

definition colExpr :: "int \<Rightarrow> int \<Rightarrow> Expr" where
  "colExpr iTab' iCol =
     Expr TK_COLUMN TK_OTHER None None [] iTab' iCol [] False 0 0 None False False"

definition strExpr :: "8 word list \<Rightarrow> Expr" where
  "strExpr z = Expr TK_STRING TK_OTHER None None [] 0 0 z False 0 0 None False False"

definition binExpr :: "tk \<Rightarrow> Expr \<Rightarrow> Expr \<Rightarrow> Expr" where
  "binExpr op' l r =
     Expr op' TK_OTHER (Some l) (Some r) [] 0 0 [] False 0 0 None False False"

text \<open>
  \<^verbatim>\<open>struct WhereTerm\<close>.  The member \<^verbatim>\<open>u.leftColumn\<close> of the union is the field
  \<open>leftColumn\<close>; \<^verbatim>\<open>pExpr\<close> is never null for a term of a clause.
\<close>

record WhereTerm =
  pExpr :: Expr
  iParent :: int
  leftCursor :: int
  leftColumn :: int
  eOperator :: "16 word"
  wtFlags :: "8 word"
  nChild :: "8 word"
  prereqRight :: Bitmask
  prereqAll :: Bitmask

text \<open>A term with the given expression, left side and operator, and nothing else set.\<close>

definition plainTerm :: "Expr \<Rightarrow> int \<Rightarrow> int \<Rightarrow> 16 word \<Rightarrow> WhereTerm" where
  "plainTerm e iCur iCol op' =
     \<lparr>pExpr = e, iParent = - 1, leftCursor = iCur, leftColumn = iCol, eOperator = op',
      wtFlags = 0, nChild = 0, prereqRight = 0, prereqAll = 0\<rparr>"

definition TERM_DYNAMIC :: "8 word" where "TERM_DYNAMIC = 0x01"
definition TERM_VIRTUAL :: "8 word" where "TERM_VIRTUAL = 0x02"
definition TERM_CODED :: "8 word" where "TERM_CODED = 0x04"
definition TERM_COPIED :: "8 word" where "TERM_COPIED = 0x08"
definition TERM_ORINFO :: "8 word" where "TERM_ORINFO = 0x10"
definition TERM_ANDINFO :: "8 word" where "TERM_ANDINFO = 0x20"
definition TERM_OR_OK :: "8 word" where "TERM_OR_OK = 0x40"

text \<open>
  \<^verbatim>\<open>TERM_VNULL\<close> is \<^verbatim>\<open>0x80\<close> when the library is compiled with
  \<^verbatim>\<open>SQLITE4_ENABLE_STAT3\<close> and \<^verbatim>\<open>0x00\<close> otherwise; the argument is that compile-time
  switch.
\<close>

definition TERM_VNULL :: "bool \<Rightarrow> 8 word" where
  "TERM_VNULL stat3 = (if stat3 then 0x80 else 0x00)"

text \<open>
  The operator classes.  \<^verbatim>\<open>WO_LT\<close>, \<^verbatim>\<open>WO_LE\<close>, \<^verbatim>\<open>WO_GT\<close> and \<^verbatim>\<open>WO_GE\<close> are
  \<^verbatim>\<open>WO_EQ<<(TK_xx-TK_EQ)\<close>; the assertions of \<^verbatim>\<open>allowedOp\<close> and \<^verbatim>\<open>exprCommute\<close>
  fix the order of the token codes as \<^verbatim>\<open>TK_EQ\<close>, \<^verbatim>\<open>TK_GT\<close>, \<^verbatim>\<open>TK_LE\<close>,
  \<^verbatim>\<open>TK_LT\<close>, \<^verbatim>\<open>TK_GE\<close>, consecutive.
\<close>

definition WO_IN :: "16 word" where "WO_IN = 0x001"
definition WO_EQ :: "16 word" where "WO_EQ = 0x002"
definition WO_GT :: "16 word" where "WO_GT = 0x004"
definition WO_LE :: "16 word" where "WO_LE = 0x008"
definition WO_LT :: "16 word" where "WO_LT = 0x010"
definition WO_GE :: "16 word" where "WO_GE = 0x020"
definition WO_MATCH :: "16 word" where "WO_MATCH = 0x040"
definition WO_ISNULL :: "16 word" where "WO_ISNULL = 0x080"
definition WO_OR :: "16 word" where "WO_OR = 0x100"
definition WO_AND :: "16 word" where "WO_AND = 0x200"
definition WO_EQUIV :: "16 word" where "WO_EQUIV = 0x400"
definition WO_NOOP :: "16 word" where "WO_NOOP = 0x800"
definition WO_ALL :: "16 word" where "WO_ALL = 0xfff"
definition WO_SINGLE :: "16 word" where "WO_SINGLE = 0x0ff"

definition SQLITE4_OK :: int where "SQLITE4_OK = 0"
definition SQLITE4_NOMEM :: int where "SQLITE4_NOMEM = 7"

section \<open>Cost arithmetic\<close>

text \<open>
  The lookup table \<^verbatim>\<open>x[]\<close> of \<^verbatim>\<open>whereCostAdd\<close>, an array of
  \<^verbatim>\<open>unsigned char\<close> with 32 entries (indices 0 to 31).
\<close>

definition whereCostAdd_x :: "8 word list" where
  "whereCostAdd_x =
     [10, 10,
      9, 9,
      8, 8,
      7, 7, 7,
      6, 6, 6,
      5, 5, 5,
      4, 4, 4, 4,
      3, 3, 3, 3, 3, 3,
      2, 2, 2, 2, 2, 2, 2]"

text \<open>
  \<^verbatim>\<open>whereCostAdd(a,b)\<close>.  The comparisons \<^verbatim>\<open>a>b+49\<close> and \<^verbatim>\<open>a>b+31\<close> are
  evaluated after integer promotion, so they are comparisons of unbounded integers here;
  the returned sum is converted back to the 16-bit type, which is the addition of
  \<^typ>\<open>16 word\<close>.
\<close>

definition whereCostAdd :: "WhereCost \<Rightarrow> WhereCost \<Rightarrow> WhereCost" where
  "whereCostAdd a b =
     (if a \<ge> b then
        (if uint a > uint b + 49 then a
         else if uint a > uint b + 31 then a + 1
         else a + ucast (whereCostAdd_x ! nat (uint a - uint b)))
      else
        (if uint b > uint a + 49 then b
         else if uint b > uint a + 31 then b + 1
         else b + ucast (whereCostAdd_x ! nat (uint b - uint a))))"

text \<open>
  \<^verbatim>\<open>whereCostToInt(x)\<close> returns a \<^verbatim>\<open>u64\<close>.  The left shift \<^verbatim>\<open>(n+8)<<(x-3)\<close>
  is a shift of a 64-bit value: bits pushed beyond bit 63 are lost, and a shift count of
  64 or more has no defined result in C, which is the value \<open>None\<close> here.
\<close>

definition whereCostToInt :: "WhereCost \<Rightarrow> 64 word option" where
  "whereCostToInt x0 =
     (if x0 < 10 then Some 1
      else
        let n0 = (ucast (x0 mod 10) :: 64 word);
            x = uint (x0 div 10);
            n = (if n0 \<ge> 5 then n0 - 2 else if n0 \<ge> 1 then n0 - 1 else n0)
        in if x \<ge> 3
           then (if x - 3 < 64 then Some (push_bit (nat (x - 3)) (n + 8)) else None)
           else Some (drop_bit (nat (3 - x)) (n + 8)))"

text \<open>
  \<^verbatim>\<open>sqlite4WhereOutputRowCount(pWInfo)\<close> reads only the field \<^verbatim>\<open>nRowOut\<close> of the
  \<^verbatim>\<open>WhereInfo\<close>, which is its argument here.
\<close>

definition sqlite4WhereOutputRowCount :: "WhereCost \<Rightarrow> 64 word option" where
  "sqlite4WhereOutputRowCount nRowOut = whereCostToInt nRowOut"

section \<open>Cursor bitmap\<close>

text \<open>
  Modelled from the spec: \<^verbatim>\<open>BMS\<close>, the number of bits of a \<^verbatim>\<open>Bitmask\<close>, is defined
  in sqliteInt.h, which is not among the sources; the spec gives the width of the
  dependency word as 64 and where.c says that the default is 64 bits.
\<close>

definition BMS :: nat where
  "BMS = 64"

text \<open>\<^verbatim>\<open>#define MASKBIT(n) (((Bitmask)1)<<(n))\<close>\<close>

definition MASKBIT :: "nat \<Rightarrow> Bitmask" where
  "MASKBIT n = push_bit n 1"

text \<open>
  \<^verbatim>\<open>struct WhereMaskSet { int n; int ix[BMS]; }\<close>: \<open>ms_n\<close> is the number of assigned
  cursors and \<open>ms_ix\<close> the array, whose length is the number of slots.
\<close>

record WhereMaskSet =
  ms_n :: nat
  ms_ix :: "int list"

text \<open>\<^verbatim>\<open>#define initMaskSet(P) (P)->n=0\<close>\<close>

definition initMaskSet :: "WhereMaskSet \<Rightarrow> WhereMaskSet" where
  "initMaskSet P = P\<lparr>ms_n := 0\<rparr>"

text \<open>
  \<^verbatim>\<open>getMask\<close>: the loop \<^verbatim>\<open>for(i=0; i<pMaskSet->n; i++)\<close> returns the bit of the first
  slot that holds the cursor, and 0 when no slot does.
\<close>

function getMask_loop :: "WhereMaskSet \<Rightarrow> int \<Rightarrow> nat \<Rightarrow> Bitmask" where
  "getMask_loop pMaskSet iCursor i =
     (if i < ms_n pMaskSet then
        (if ms_ix pMaskSet ! i = iCursor then MASKBIT i
         else getMask_loop pMaskSet iCursor (i + 1))
      else 0)"
  by pat_completeness auto
termination
  by (relation "measure (\<lambda>(pMaskSet, iCursor, i). ms_n pMaskSet - i)") auto

declare getMask_loop.simps [simp del]

definition getMask :: "WhereMaskSet \<Rightarrow> int \<Rightarrow> Bitmask" where
  "getMask pMaskSet iCursor = getMask_loop pMaskSet iCursor 0"

text \<open>
  \<^verbatim>\<open>createMask\<close>: \<^verbatim>\<open>pMaskSet->ix[pMaskSet->n++] = iCursor\<close>.  The source only asserts
  that a slot is left; a write beyond the array is the value \<open>None\<close>.
\<close>

definition createMask :: "WhereMaskSet \<Rightarrow> int \<Rightarrow> WhereMaskSet option" where
  "createMask pMaskSet iCursor =
     (if ms_n pMaskSet < length (ms_ix pMaskSet)
      then Some (pMaskSet\<lparr>ms_ix := (ms_ix pMaskSet)[ms_n pMaskSet := iCursor],
                          ms_n := ms_n pMaskSet + 1\<rparr>)
      else None)"

text \<open>
  The loop of \<^verbatim>\<open>sqlite4WhereBegin\<close> that calls \<^verbatim>\<open>createMask\<close> on the cursor of every
  entry of the FROM clause, from left to right.  The FROM clause is the list of the
  \<^verbatim>\<open>iCursor\<close> fields of its entries.
\<close>

fun createMask_all :: "WhereMaskSet \<Rightarrow> int list \<Rightarrow> WhereMaskSet option" where
  "createMask_all pMaskSet [] = Some pMaskSet"
| "createMask_all pMaskSet (iCursor # rest) =
     (case createMask pMaskSet iCursor of
        None \<Rightarrow> None
      | Some pMaskSet' \<Rightarrow> createMask_all pMaskSet' rest)"

text \<open>
  The accumulator \<^verbatim>\<open>toTheLeft\<close> of the debugging block in \<^verbatim>\<open>sqlite4WhereBegin\<close>:
  the union of the masks of the entries visited so far.
\<close>

fun toTheLeft :: "WhereMaskSet \<Rightarrow> int list \<Rightarrow> Bitmask \<Rightarrow> Bitmask" where
  "toTheLeft pMaskSet [] acc = acc"
| "toTheLeft pMaskSet (iCursor # rest) acc =
     toTheLeft pMaskSet rest (acc OR getMask pMaskSet iCursor)"

datatype whereBegin_error = TooManyTables string | MallocFailed

text \<open>
  The \<^verbatim>\<open>WhereInfo\<close> comes from \<^verbatim>\<open>sqlite4DbMallocZero\<close>, so the mask set starts with
  every slot zero.
\<close>

definition zeroMaskSet :: WhereMaskSet where
  "zeroMaskSet = \<lparr>ms_n = 0, ms_ix = replicate BMS 0\<rparr>"

text \<open>
  The start of \<^verbatim>\<open>sqlite4WhereBegin\<close>, up to the assignment of the bitmasks: the test
  of the number of tables against \<^verbatim>\<open>BMS\<close> with its error message, the allocation of
  the \<^verbatim>\<open>WhereInfo\<close> (whose failure is the flag \<open>mallocFailed\<close>), and the loop over the
  FROM clause.
\<close>

definition sqlite4WhereBegin_masks :: "bool \<Rightarrow> int list \<Rightarrow> whereBegin_error + WhereMaskSet" where
  "sqlite4WhereBegin_masks mallocFailed pTabList =
     (if length pTabList > BMS then Inl (TooManyTables ''at most 64 tables in a join'')
      else if mallocFailed then Inl MallocFailed
      else (case createMask_all (initMaskSet zeroMaskSet) pTabList of
              None \<Rightarrow> Inl MallocFailed
            | Some pMaskSet \<Rightarrow> Inr pMaskSet))"

section \<open>Range selectivity\<close>





section \<open>Candidate loops and their pool\<close>

definition WHERE_INDEXED :: "32 word" where "WHERE_INDEXED = 0x00000200"
definition WHERE_VIRTUALTABLE :: "32 word" where "WHERE_VIRTUALTABLE = 0x00000400"
definition WHERE_AUTO_INDEX :: "32 word" where "WHERE_AUTO_INDEX = 0x00004000"

text \<open>
  \<^verbatim>\<open>struct WhereLoop\<close>.  The two members of the union \<^verbatim>\<open>u\<close> are kept side by side:
  the fields \<open>btree_nEq\<close> and \<open>btree_pIndex\<close> are \<^verbatim>\<open>u.btree\<close>, the five fields
  from \<open>vtab_idxNum\<close> to \<open>vtab_idxStr\<close> are \<^verbatim>\<open>u.vtab\<close>; the source reads \<^verbatim>\<open>u.btree\<close> only in a loop without
  \<^verbatim>\<open>WHERE_VIRTUALTABLE\<close>.  Pointers to an \<^verbatim>\<open>Index\<close> and to the plan string are
  addresses, with 0 for the null pointer.  \<open>aLTerm\<close> lists the first \<open>nLTerm\<close> entries of
  the array of that name, each a term by its position in the WHERE clause.  The pool
  \<^verbatim>\<open>pWInfo->pLoops\<close>, a list linked through \<^verbatim>\<open>pNextLoop\<close>, is a list of loops.
\<close>

record WhereLoop =
  prereq :: Bitmask
  maskSelf :: Bitmask
  iTab :: "8 word"
  iSortIdx :: "8 word"
  rSetup :: WhereCost
  rRun :: WhereCost
  nOut :: WhereCost
  btree_nEq :: int
  btree_pIndex :: nat
  vtab_idxNum :: int
  vtab_needFree :: "8 word"
  vtab_isOrdered :: "8 word"
  vtab_omitMask :: "16 word"
  vtab_idxStr :: nat
  wsFlags :: "32 word"
  nLTerm :: "16 word"
  nLSlot :: "16 word"
  aLTerm :: "nat list"

text \<open>\<^verbatim>\<open>struct WhereOrCost\<close> and \<^verbatim>\<open>struct WhereOrSet\<close> (at most \<^verbatim>\<open>N_OR_COST\<close> entries).\<close>

record WhereOrCost =
  oc_prereq :: Bitmask
  oc_rRun :: WhereCost
  oc_nOut :: WhereCost

definition N_OR_COST :: nat where
  "N_OR_COST = 3"

type_synonym WhereOrSet = "WhereOrCost list"

text \<open>
  \<^verbatim>\<open>whereOrInsert\<close>.  The first loop looks for an entry that the new one is at least as
  good as (it is overwritten) or that is at least as good as the new one (nothing is
  done, result 0).
\<close>

fun whereOrInsert_find :: "WhereOrSet \<Rightarrow> Bitmask \<Rightarrow> WhereCost \<Rightarrow> nat \<Rightarrow> (nat option) option" where
  "whereOrInsert_find [] prereq' rRun' i = None"
| "whereOrInsert_find (p # rest) prereq' rRun' i =
     (if rRun' \<le> oc_rRun p \<and> prereq' AND oc_prereq p = prereq' then Some (Some i)
      else if oc_rRun p \<le> rRun' \<and> oc_prereq p AND prereq' = oc_prereq p then Some None
      else whereOrInsert_find rest prereq' rRun' (i + 1))"

text \<open>
  The second loop of \<^verbatim>\<open>whereOrInsert\<close>, which runs when the set is full:
  \<^verbatim>\<open>p = pSet->a; for(i=1; i<pSet->n; i++) if( p->rRun>pSet->a[i].rRun ) p = pSet->a + i;\<close>
\<close>

function whereOrInsert_pick :: "WhereOrSet \<Rightarrow> nat \<Rightarrow> nat \<Rightarrow> nat" where
  "whereOrInsert_pick pSet p i =
     (if i < length pSet
      then whereOrInsert_pick pSet (if oc_rRun (pSet ! p) > oc_rRun (pSet ! i) then i else p) (i + 1)
      else p)"
  by pat_completeness auto
termination
  by (relation "measure (\<lambda>(pSet, p, i). length pSet - i)") auto

declare whereOrInsert_pick.simps [simp del]

definition whereOrInsert_done :: "WhereOrSet \<Rightarrow> nat \<Rightarrow> Bitmask \<Rightarrow> WhereCost \<Rightarrow> WhereCost \<Rightarrow> WhereOrSet" where
  "whereOrInsert_done pSet p prereq' rRun' nOut' =
     pSet[p := (pSet ! p)\<lparr>oc_prereq := prereq', oc_rRun := rRun',
                          oc_nOut := (if oc_nOut (pSet ! p) > nOut' then nOut' else oc_nOut (pSet ! p))\<rparr>]"

definition whereOrInsert :: "WhereOrSet \<Rightarrow> Bitmask \<Rightarrow> WhereCost \<Rightarrow> WhereCost \<Rightarrow> int \<times> WhereOrSet" where
  "whereOrInsert pSet prereq' rRun' nOut' =
     (case whereOrInsert_find pSet prereq' rRun' 0 of
        Some (Some i) \<Rightarrow> (1, whereOrInsert_done pSet i prereq' rRun' nOut')
      | Some None \<Rightarrow> (0, pSet)
      | None \<Rightarrow>
          if length pSet < N_OR_COST then
            (1, whereOrInsert_done
                  (pSet @ [\<lparr>oc_prereq = 0, oc_rRun = 0, oc_nOut = nOut'\<rparr>])
                  (length pSet) prereq' rRun' nOut')
          else
            (let p = whereOrInsert_pick pSet 0 1
             in if oc_rRun (pSet ! p) \<le> rRun' then (0, pSet)
                else (1, whereOrInsert_done pSet p prereq' rRun' nOut')))"

text \<open>
  The part of \<^verbatim>\<open>struct WhereLoopBuilder\<close> and of the \<^verbatim>\<open>WhereInfo\<close> behind it that
  \<^verbatim>\<open>whereLoopInsert\<close> works on.
\<close>

record WhereLoopBuilder =
  pLoops :: "WhereLoop list"
  pOrSet :: "WhereOrSet option"

text \<open>\<^verbatim>\<open>whereLoopInit\<close>; \<^verbatim>\<open>ArraySize(p->aLTermSpace)\<close> is 4.\<close>

definition whereLoopInit :: "WhereLoop \<Rightarrow> WhereLoop" where
  "whereLoopInit p = p\<lparr>aLTerm := [], nLTerm := 0, nLSlot := 4, wsFlags := 0\<rparr>"

text \<open>\<^verbatim>\<open>whereLoopClearUnion\<close>, without the release of the memory.\<close>

definition whereLoopClearUnion :: "WhereLoop \<Rightarrow> WhereLoop" where
  "whereLoopClearUnion p =
     (if wsFlags p AND (WHERE_VIRTUALTABLE OR WHERE_AUTO_INDEX) \<noteq> 0 then
        (if wsFlags p AND WHERE_VIRTUALTABLE \<noteq> 0 \<and> vtab_needFree p \<noteq> 0
         then p\<lparr>vtab_needFree := 0, vtab_idxStr := 0\<rparr>
         else if wsFlags p AND WHERE_AUTO_INDEX \<noteq> 0 \<and> btree_pIndex p \<noteq> 0
         then p\<lparr>btree_pIndex := 0\<rparr>
         else p)
      else p)"

text \<open>
  \<^verbatim>\<open>whereLoopResize(db, p, n)\<close>: nothing happens when \<^verbatim>\<open>p->nLSlot>=n\<close>; otherwise the
  array grows to \<^verbatim>\<open>(n+7)&~7\<close> slots, unless the allocation fails (\<open>allocOk\<close> false),
  which is \<open>None\<close>.
\<close>

definition whereLoopResize :: "bool \<Rightarrow> WhereLoop \<Rightarrow> int \<Rightarrow> WhereLoop option" where
  "whereLoopResize allocOk p n =
     (if uint (nLSlot p) \<ge> n then Some p
      else if allocOk then Some (p\<lparr>nLSlot := word_of_int ((n + 7) div 8 * 8)\<rparr>)
      else None)"

text \<open>
  \<^verbatim>\<open>whereLoopXfer(db, pTo, pFrom)\<close> copies every field before \<^verbatim>\<open>nLSlot\<close> and the
  first \<^verbatim>\<open>nLTerm\<close> terms, and takes the ownership of the plan string or of the
  automatic index away from \<^verbatim>\<open>pFrom\<close>.  The result is the return code, \<^verbatim>\<open>pTo\<close> and
  \<^verbatim>\<open>pFrom\<close>.
\<close>

definition whereLoopXfer :: "bool \<Rightarrow> WhereLoop \<Rightarrow> WhereLoop \<Rightarrow> int \<times> WhereLoop \<times> WhereLoop" where
  "whereLoopXfer allocOk pTo pFrom =
     (case whereLoopResize allocOk pTo (uint (nLTerm pFrom)) of
        None \<Rightarrow> (SQLITE4_NOMEM, pTo, pFrom)
      | Some pTo1 \<Rightarrow>
          (let pTo2 = whereLoopClearUnion pTo1;
               pTo3 = pFrom\<lparr>nLSlot := nLSlot pTo2,
                            aLTerm := take (unat (nLTerm pFrom)) (aLTerm pFrom)\<rparr>;
               pFrom' = (if wsFlags pFrom AND WHERE_VIRTUALTABLE \<noteq> 0
                         then pFrom\<lparr>vtab_needFree := 0\<rparr>
                         else if wsFlags pFrom AND WHERE_AUTO_INDEX \<noteq> 0
                         then pFrom\<lparr>btree_pIndex := 0\<rparr>
                         else pFrom)
           in (SQLITE4_OK, pTo3, pFrom')))"

text \<open>
  The search loop of \<^verbatim>\<open>whereLoopInsert\<close> over the pool.  It stops at the first loop
  with the same \<^verbatim>\<open>iTab\<close> and \<^verbatim>\<open>iSortIdx\<close> for which one of the two tests succeeds:
  \<open>ins_noop\<close> is the jump to \<^verbatim>\<open>whereLoopInsert_noop\<close>, \<open>ins_overwrite i\<close> a \<^verbatim>\<open>break\<close>
  at the \<open>i\<close>-th loop, and \<open>ins_append\<close> the end of the list (\<^verbatim>\<open>p==0\<close>).  The
  assertions about \<^verbatim>\<open>rSetup\<close> are no code of a release build, where \<^verbatim>\<open>ALWAYS(X)\<close>
  is \<^verbatim>\<open>X\<close>.
\<close>

datatype insert_action = ins_noop | ins_overwrite nat | ins_append

fun whereLoopInsert_search :: "WhereLoop \<Rightarrow> WhereLoop list \<Rightarrow> nat \<Rightarrow> insert_action" where
  "whereLoopInsert_search pTemplate [] i = ins_append"
| "whereLoopInsert_search pTemplate (p # rest) i =
     (if iTab p \<noteq> iTab pTemplate \<or> iSortIdx p \<noteq> iSortIdx pTemplate
      then whereLoopInsert_search pTemplate rest (i + 1)
      else if prereq p AND prereq pTemplate = prereq p
              \<and> rSetup p \<le> rSetup pTemplate
              \<and> rRun p \<le> rRun pTemplate
      then (if nLTerm p < nLTerm pTemplate
               \<and> wsFlags p AND WHERE_INDEXED \<noteq> 0
               \<and> wsFlags pTemplate AND WHERE_INDEXED \<noteq> 0
               \<and> btree_pIndex p = btree_pIndex pTemplate
               \<and> prereq p = prereq pTemplate
            then ins_overwrite i
            else ins_noop)
      else if prereq p AND prereq pTemplate = prereq pTemplate
              \<and> rRun p \<ge> rRun pTemplate
              \<and> rSetup p \<ge> rSetup pTemplate
      then ins_overwrite i
      else whereLoopInsert_search pTemplate rest (i + 1))"

text \<open>
  The end of \<^verbatim>\<open>whereLoopInsert\<close>: the transfer of the template into \<^verbatim>\<open>p\<close> (whose
  return code the source ignores) and the reset of \<^verbatim>\<open>u.btree.pIndex\<close> when the index
  has \<^verbatim>\<open>tnum==0\<close>.  \<open>tnum\<close> reads that field of the \<^verbatim>\<open>Index\<close> at an address.
\<close>

definition whereLoopInsert_store ::
  "(nat \<Rightarrow> int) \<Rightarrow> bool \<Rightarrow> WhereLoop \<Rightarrow> WhereLoop \<Rightarrow> WhereLoop \<times> WhereLoop" where
  "whereLoopInsert_store tnum allocOk p pTemplate =
     (case whereLoopXfer allocOk p pTemplate of
        (rc, p1, pTemplate') \<Rightarrow>
          (if wsFlags p1 AND WHERE_VIRTUALTABLE = 0 \<and> btree_pIndex p1 \<noteq> 0 \<and> tnum (btree_pIndex p1) = 0
           then (p1\<lparr>btree_pIndex := 0\<rparr>, pTemplate')
           else (p1, pTemplate')))"

text \<open>
  \<^verbatim>\<open>whereLoopInsert(pBuilder, pTemplate)\<close>.  \<open>allocLoop\<close> tells whether the allocation
  of a new \<^verbatim>\<open>WhereLoop\<close> succeeds, \<open>raw\<close> is the content of that fresh memory, and
  \<open>allocTerms\<close> tells whether the allocation inside \<^verbatim>\<open>whereLoopResize\<close> succeeds.  The
  result is the return code, the builder and the template.
\<close>

definition whereLoopInsert ::
  "(nat \<Rightarrow> int) \<Rightarrow> bool \<Rightarrow> bool \<Rightarrow> WhereLoop \<Rightarrow> WhereLoopBuilder \<Rightarrow> WhereLoop
     \<Rightarrow> int \<times> WhereLoopBuilder \<times> WhereLoop" where
  "whereLoopInsert tnum allocLoop allocTerms raw pBuilder pTemplate =
     (case pOrSet pBuilder of
        Some pSet \<Rightarrow>
          (SQLITE4_OK,
           pBuilder\<lparr>pOrSet := Some (snd (whereOrInsert pSet (prereq pTemplate)
                                              (rRun pTemplate) (nOut pTemplate)))\<rparr>,
           pTemplate)
      | None \<Rightarrow>
          (case whereLoopInsert_search pTemplate (pLoops pBuilder) 0 of
             ins_noop \<Rightarrow> (SQLITE4_OK, pBuilder, pTemplate)
           | ins_overwrite i \<Rightarrow>
               (case whereLoopInsert_store tnum allocTerms (pLoops pBuilder ! i) pTemplate of
                  (p, pTemplate') \<Rightarrow>
                    (SQLITE4_OK, pBuilder\<lparr>pLoops := (pLoops pBuilder)[i := p]\<rparr>, pTemplate'))
           | ins_append \<Rightarrow>
               if \<not> allocLoop then (SQLITE4_NOMEM, pBuilder, pTemplate)
               else
                 (case whereLoopInsert_store tnum allocTerms (whereLoopInit raw) pTemplate of
                    (p, pTemplate') \<Rightarrow>
                      (SQLITE4_OK, pBuilder\<lparr>pLoops := pLoops pBuilder @ [p]\<rparr>, pTemplate'))))"

text \<open>
  The dominance relation in the words of the specification: \<open>E\<close> dominates \<open>C\<close> when
  both are for the same table and the same sort index, the prerequisites of \<open>E\<close> are a
  subset of those of \<open>C\<close>, and \<open>E\<close> costs no more in setup and in running.  \<open>E\<close> is a
  shorter prefix of \<open>C\<close> when both use the same index, with the same prerequisites, and
  \<open>C\<close> uses more terms.
\<close>

definition spec_dominates :: "WhereLoop \<Rightarrow> WhereLoop \<Rightarrow> bool" where
  "spec_dominates E C \<longleftrightarrow>
     iTab E = iTab C \<and> iSortIdx E = iSortIdx C
     \<and> prereq E AND prereq C = prereq E
     \<and> rSetup E \<le> rSetup C \<and> rRun E \<le> rRun C"

definition spec_shorter_prefix :: "WhereLoop \<Rightarrow> WhereLoop \<Rightarrow> bool" where
  "spec_shorter_prefix E C \<longleftrightarrow>
     nLTerm E < nLTerm C
     \<and> wsFlags E AND WHERE_INDEXED \<noteq> 0 \<and> wsFlags C AND WHERE_INDEXED \<noteq> 0
     \<and> btree_pIndex E = btree_pIndex C \<and> prereq E = prereq C"

text \<open>
  A plain candidate loop for the table 0 with the given prerequisites, running cost,
  number of terms and flags: no setup cost, no sort index, index at address 1.
\<close>

definition plainLoop :: "Bitmask \<Rightarrow> WhereCost \<Rightarrow> 16 word \<Rightarrow> 32 word \<Rightarrow> WhereLoop" where
  "plainLoop pre run nterm flags =
     \<lparr>prereq = pre, maskSelf = 1, iTab = 0, iSortIdx = 0, rSetup = 0, rRun = run, nOut = 10,
      btree_nEq = 0, btree_pIndex = 1, vtab_idxNum = 0, vtab_needFree = 0, vtab_isOrdered = 0, vtab_omitMask = 0,
      vtab_idxStr = 0, wsFlags = flags, nLTerm = nterm, nLSlot = 4, aLTerm = take (unat nterm) [0, 1, 2, 3]\<rparr>"

text \<open>The insertion of a sequence of templates into a pool, with every allocation succeeding.\<close>

fun insertAll :: "(nat \<Rightarrow> int) \<Rightarrow> WhereLoop \<Rightarrow> WhereLoopBuilder \<Rightarrow> WhereLoop list \<Rightarrow> WhereLoopBuilder" where
  "insertAll tnum raw pBuilder [] = pBuilder"
| "insertAll tnum raw pBuilder (t # ts) =
     insertAll tnum raw (fst (snd (whereLoopInsert tnum True True raw pBuilder t))) ts"

text \<open>An \<^verbatim>\<open>Index\<close> heap in which every index has the root page 2.\<close>

definition tnum_two :: "nat \<Rightarrow> int" where
  "tnum_two a = 2"

section \<open>Join-order solver\<close>

text \<open>
  \<^verbatim>\<open>struct WherePath\<close>.  \<open>aLoop\<close> holds the loops of the path, outermost first.
\<close>

record WherePath =
  maskLoop :: Bitmask
  revLoop :: Bitmask
  nRow :: WhereCost
  rCost :: WhereCost
  isOrdered :: "8 word"
  isOrderedValid :: "8 word"
  aLoop :: "WhereLoop list"

text \<open>
  \<^verbatim>\<open>mxChoice = (nLoop==1) ? 1 : (nLoop==2 ? 5 : 10)\<close>, where \<^verbatim>\<open>nLoop\<close> is the field
  \<^verbatim>\<open>nLevel\<close> of the \<^verbatim>\<open>WhereInfo\<close>, an unsigned byte.
\<close>

definition solver_mxChoice :: "8 word \<Rightarrow> nat" where
  "solver_mxChoice nLoop = (if nLoop = 1 then 1 else (if nLoop = 2 then 5 else 10))"

text \<open>
  The candidate path that the body of the innermost loop of \<^verbatim>\<open>wherePathSolver\<close> builds
  from a path \<^verbatim>\<open>pFrom\<close> of the previous generation and a loop \<^verbatim>\<open>pWLoop\<close>; \<open>None\<close>
  is one of the two \<^verbatim>\<open>continue\<close> statements at its top.
  \<^verbatim>\<open>wherePathSatisfiesOrderBy\<close> is not unfolded: \<open>obSat pFrom pWLoop\<close> is its result
  together with the value it leaves in \<^verbatim>\<open>revMask\<close>.
\<close>

definition solver_candidate ::
  "(WherePath \<Rightarrow> WhereLoop \<Rightarrow> int \<times> Bitmask) \<Rightarrow> WhereCost \<Rightarrow> nat \<Rightarrow> WherePath \<Rightarrow> WhereLoop
     \<Rightarrow> WherePath option" where
  "solver_candidate obSat rSortCost iLoop pFrom pWLoop =
     (if prereq pWLoop AND NOT (maskLoop pFrom) \<noteq> 0 then None
      else if maskSelf pWLoop AND maskLoop pFrom \<noteq> 0 then None
      else
        (let rCost0 = whereCostAdd (rSetup pWLoop) (rRun pWLoop + nRow pFrom);
             rCost1 = whereCostAdd rCost0 (rCost pFrom);
             maskNew = maskLoop pFrom OR maskSelf pWLoop;
             ob = obSat pFrom pWLoop;
             isOrderedValid' =
               (if isOrderedValid pFrom = 0 \<and> (fst ob = 1 \<or> fst ob = 0) then 1
                else isOrderedValid pFrom);
             isOrdered' =
               (if isOrderedValid pFrom = 0 \<and> fst ob = 1 then 1
                else if isOrderedValid pFrom = 0 \<and> fst ob = 0 then 0
                else isOrdered pFrom);
             rCost2 =
               (if isOrderedValid pFrom = 0 \<and> fst ob = 0 then whereCostAdd rCost1 rSortCost
                else rCost1);
             revMask = (if isOrderedValid pFrom = 0 then snd ob else revLoop pFrom)
         in Some \<lparr>maskLoop = maskNew, revLoop = revMask,
                  nRow = nRow pFrom + nOut pWLoop, rCost = rCost2,
                  isOrdered = isOrdered', isOrderedValid = isOrderedValid',
                  aLoop = take iLoop (aLoop pFrom) @ [pWLoop]\<rparr>))"

text \<open>
  The search \<^verbatim>\<open>for(jj=0, pTo=aTo; jj<nTo; jj++, pTo++)\<close> for a retained path with the
  same \<^verbatim>\<open>maskLoop\<close> and the same \<^verbatim>\<open>isOrderedValid\<close>; the result is \<^verbatim>\<open>jj\<close>, which
  is \<^verbatim>\<open>nTo\<close> when there is none.  The retained paths \<^verbatim>\<open>aTo[0..nTo-1]\<close> are a list.
\<close>

fun solver_find :: "WherePath list \<Rightarrow> Bitmask \<Rightarrow> 8 word \<Rightarrow> nat" where
  "solver_find [] maskNew valid = 0"
| "solver_find (pTo # rest) maskNew valid =
     (if maskLoop pTo = maskNew \<and> isOrderedValid pTo = valid then 0
      else Suc (solver_find rest maskNew valid))"

text \<open>
  \<^verbatim>\<open>for(jj=nTo-1; aTo[jj].rCost<mxCost; jj--){ assert(jj>0); }\<close>: the last path whose cost
  is not below \<^verbatim>\<open>mxCost\<close>.  Running below index 0 is a read outside the array, \<open>None\<close>.
\<close>

fun solver_worst :: "WherePath list \<Rightarrow> WhereCost \<Rightarrow> nat \<Rightarrow> nat option" where
  "solver_worst aTo mxCost 0 = (if rCost (aTo ! 0) < mxCost then None else Some 0)"
| "solver_worst aTo mxCost (Suc jj) =
     (if rCost (aTo ! Suc jj) < mxCost then solver_worst aTo mxCost jj else Some (Suc jj))"

text \<open>
  \<^verbatim>\<open>mxCost = aTo[0].rCost; for(jj=1, pTo=&aTo[1]; jj<mxChoice; jj++, pTo++)
  if( pTo->rCost>mxCost ) mxCost = pTo->rCost;\<close>
\<close>

fun solver_max :: "WherePath list \<Rightarrow> WhereCost \<Rightarrow> WhereCost" where
  "solver_max [] mxCost = mxCost"
| "solver_max (pTo # rest) mxCost =
     solver_max rest (if rCost pTo > mxCost then rCost pTo else mxCost)"

definition solver_mxCost :: "nat \<Rightarrow> WherePath list \<Rightarrow> WhereCost \<Rightarrow> WhereCost" where
  "solver_mxCost mxChoice aTo mxCost =
     (if length aTo \<ge> mxChoice
      then solver_max (tl (take mxChoice aTo)) (rCost (aTo ! 0))
      else mxCost)"

text \<open>
  The rest of the body: the candidate \<open>T\<close> is skipped, appended, or written over a
  retained path, and \<^verbatim>\<open>mxCost\<close> is computed again once the set is full.  The state is
  the pair of the retained paths and of \<^verbatim>\<open>mxCost\<close>.
\<close>

definition solver_merge ::
  "nat \<Rightarrow> WherePath \<Rightarrow> WherePath list \<times> WhereCost \<Rightarrow> (WherePath list \<times> WhereCost) option" where
  "solver_merge mxChoice T st =
     (let aTo = fst st; mxCost = snd st; nTo = length aTo;
          jj = solver_find aTo (maskLoop T) (isOrderedValid T)
      in if jj \<ge> nTo then
           (if nTo \<ge> mxChoice \<and> rCost T \<ge> mxCost then Some st
            else if nTo < mxChoice then
              Some (aTo @ [T], solver_mxCost mxChoice (aTo @ [T]) mxCost)
            else
              (case solver_worst aTo mxCost (nTo - 1) of
                 None \<Rightarrow> None
               | Some w \<Rightarrow> Some (aTo[w := T], solver_mxCost mxChoice (aTo[w := T]) mxCost)))
         else
           (if rCost (aTo ! jj) \<le> rCost T then Some st
            else Some (aTo[jj := T], solver_mxCost mxChoice (aTo[jj := T]) mxCost)))"

definition solver_step ::
  "nat \<Rightarrow> (WherePath \<Rightarrow> WhereLoop \<Rightarrow> int \<times> Bitmask) \<Rightarrow> WhereCost \<Rightarrow> nat \<Rightarrow> WherePath \<Rightarrow> WhereLoop
     \<Rightarrow> WherePath list \<times> WhereCost \<Rightarrow> (WherePath list \<times> WhereCost) option" where
  "solver_step mxChoice obSat rSortCost iLoop pFrom pWLoop st =
     (case solver_candidate obSat rSortCost iLoop pFrom pWLoop of
        None \<Rightarrow> Some st
      | Some T \<Rightarrow> solver_merge mxChoice T st)"

text \<open>
  The two loops around the body, over the loops of the pool for one \<^verbatim>\<open>pFrom\<close> and over
  the paths \<^verbatim>\<open>aFrom\<close> of the previous generation.
\<close>

fun solver_loops ::
  "nat \<Rightarrow> (WherePath \<Rightarrow> WhereLoop \<Rightarrow> int \<times> Bitmask) \<Rightarrow> WhereCost \<Rightarrow> nat \<Rightarrow> WherePath
     \<Rightarrow> WhereLoop list \<Rightarrow> WherePath list \<times> WhereCost \<Rightarrow> (WherePath list \<times> WhereCost) option" where
  "solver_loops mxChoice obSat rSortCost iLoop pFrom [] st = Some st"
| "solver_loops mxChoice obSat rSortCost iLoop pFrom (pWLoop # rest) st =
     (case solver_step mxChoice obSat rSortCost iLoop pFrom pWLoop st of
        None \<Rightarrow> None
      | Some st' \<Rightarrow> solver_loops mxChoice obSat rSortCost iLoop pFrom rest st')"

fun solver_generation ::
  "nat \<Rightarrow> (WherePath \<Rightarrow> WhereLoop \<Rightarrow> int \<times> Bitmask) \<Rightarrow> WhereCost \<Rightarrow> nat \<Rightarrow> WhereLoop list
     \<Rightarrow> WherePath list \<Rightarrow> WherePath list \<times> WhereCost \<Rightarrow> (WherePath list \<times> WhereCost) option" where
  "solver_generation mxChoice obSat rSortCost iLoop pool [] st = Some st"
| "solver_generation mxChoice obSat rSortCost iLoop pool (pFrom # rest) st =
     (case solver_loops mxChoice obSat rSortCost iLoop pFrom pool st of
        None \<Rightarrow> None
      | Some st' \<Rightarrow> solver_generation mxChoice obSat rSortCost iLoop pool rest st')"

text \<open>
  The seed of generation 0, \<^verbatim>\<open>aFrom[0]\<close> after its \<^verbatim>\<open>memset\<close>: \<open>nQueryLoop\<close> is
  \<^verbatim>\<open>MIN(pParse->nQueryLoop, 46)\<close> and \<open>noSort\<close> is
  \<^verbatim>\<open>pWInfo->pOrderBy==0 || nRowEst==0\<close>.
\<close>

definition solver_seed :: "WhereCost \<Rightarrow> bool \<Rightarrow> WherePath" where
  "solver_seed nQueryLoop noSort =
     \<lparr>maskLoop = 0, revLoop = 0, nRow = nQueryLoop, rCost = 0, isOrdered = 0,
      isOrderedValid = (if noSort then 1 else 0), aLoop = []\<rparr>"

text \<open>
  An ORDER BY oracle for the examples: a loop with the sort index 1 delivers the order,
  every other loop does not.
\<close>

definition obSat_bySortIdx :: "WherePath \<Rightarrow> WhereLoop \<Rightarrow> int \<times> Bitmask" where
  "obSat_bySortIdx pFrom pWLoop = (if iSortIdx pWLoop = 1 then 1 else 0, 0)"

text \<open>
  The ORDER BY status of a path in the three values of the specification.
\<close>

datatype ob_status = Satisfied | NotSatisfied | Unknown

definition spec_ob_status :: "WherePath \<Rightarrow> ob_status" where
  "spec_ob_status p =
     (if isOrderedValid p = 0 then Unknown
      else if isOrdered p \<noteq> 0 then Satisfied else NotSatisfied)"

text \<open>
  The key under which \<^verbatim>\<open>wherePathSolver\<close> identifies retained paths, and the invariant
  of its bookkeeping: at most \<^verbatim>\<open>mxChoice\<close> paths are retained, no two of them have the
  same key, and once the set is full \<^verbatim>\<open>mxCost\<close> is the largest retained cost.
\<close>

definition solver_key :: "WherePath \<Rightarrow> Bitmask \<times> 8 word" where
  "solver_key p = (maskLoop p, isOrderedValid p)"

definition solver_inv :: "nat \<Rightarrow> WherePath list \<times> WhereCost \<Rightarrow> bool" where
  "solver_inv mxChoice st \<longleftrightarrow>
     length (fst st) \<le> mxChoice
     \<and> distinct (map solver_key (fst st))
     \<and> (length (fst st) = mxChoice \<longrightarrow> snd st = Max (rCost ` set (fst st)))"

section \<open>Scan for terms through transitive equalities\<close>

text \<open>
  \<^verbatim>\<open>sqlite4ExprSkipCollate\<close>: skip the \<^verbatim>\<open>TK_COLLATE\<close> and \<^verbatim>\<open>TK_AS\<close> nodes at the
  root of an expression.
\<close>

fun sqlite4ExprSkipCollate :: "Expr option \<Rightarrow> Expr option" where
  "sqlite4ExprSkipCollate None = None"
| "sqlite4ExprSkipCollate (Some (Expr op' op2 l r lst it ic z fj rj aff coll virt ec)) =
     (if op' = TK_COLLATE \<or> op' = TK_AS then sqlite4ExprSkipCollate l
      else Some (Expr op' op2 l r lst it ic z fj rj aff coll virt ec))"

text \<open>
  \<^verbatim>\<open>struct WhereScan\<close>.  A WHERE clause is the list of its terms, and a scan works on
  the clause it is given together with the clauses reached through \<^verbatim>\<open>pOuter\<close>: the
  chain \<open>pOrigWC\<close> lists them, innermost first.  \<open>sc_pWC\<close> is the position in the chain
  of the clause \<^verbatim>\<open>pScan->pWC\<close>, the length of the chain standing for the null pointer.
  \<^verbatim>\<open>nEquiv\<close> and \<^verbatim>\<open>iEquiv\<close> are unsigned bytes in the source; they are natural
  numbers here, and never exceed 24 in a scan that \<^verbatim>\<open>whereScanInit\<close> has started.
\<close>

type_synonym WhereClauseChain = "WhereTerm list list"

record WhereScan =
  sc_pWC :: nat
  zCollName :: "string option"
  idxaff :: "8 word"
  nEquiv :: nat
  iEquiv :: nat
  opMask :: "32 word"
  sc_k :: nat
  aEquiv :: "int list"

text \<open>
  The search of the source for a pair that \<^verbatim>\<open>aEquiv\<close> already holds:
  \<^verbatim>\<open>for(j=0; j<pScan->nEquiv; j+=2)\<close>, left with \<^verbatim>\<open>break\<close> at a match.  The result
  is the final \<^verbatim>\<open>j\<close>.
\<close>

function whereScan_findEquiv :: "int list \<Rightarrow> nat \<Rightarrow> int \<Rightarrow> int \<Rightarrow> nat \<Rightarrow> nat" where
  "whereScan_findEquiv aEq nEq iTable iColumn j =
     (if j < nEq then
        (if aEq ! j = iTable \<and> aEq ! (j + 1) = iColumn then j
         else whereScan_findEquiv aEq nEq iTable iColumn (j + 2))
      else j)"
  by pat_completeness auto
termination
  by (relation "measure (\<lambda>(aEq, nEq, iTable, iColumn, j). nEq - j)") auto

declare whereScan_findEquiv.simps [simp del]

text \<open>
  The first statement under a term whose left side is the pair that is scanned for:
  when the term is an equivalence and \<^verbatim>\<open>aEquiv\<close> is not full
  (\<^verbatim>\<open>pScan->nEquiv<ArraySize(pScan->aEquiv)\<close>, 22 slots), the column on its right side
  is added to \<^verbatim>\<open>aEquiv\<close> unless it is there already.  An equivalence has a column on
  its right side; a term without a right side adds nothing.
\<close>

definition whereScan_addEquiv :: "WhereScan \<Rightarrow> WhereTerm \<Rightarrow> WhereScan" where
  "whereScan_addEquiv pScan pTerm =
     (if eOperator pTerm AND WO_EQUIV \<noteq> 0 \<and> nEquiv pScan < 22 then
        (case sqlite4ExprSkipCollate (ex_pRight (pExpr pTerm)) of
           None \<Rightarrow> pScan
         | Some pX \<Rightarrow>
             (let j = whereScan_findEquiv (aEquiv pScan) (nEquiv pScan)
                        (ex_iTable pX) (ex_iColumn pX) 0
              in if j = nEquiv pScan
                 then pScan\<lparr>aEquiv := (aEquiv pScan)[j := ex_iTable pX, j + 1 := ex_iColumn pX],
                            nEquiv := nEquiv pScan + 2\<rparr>
                 else pScan))
      else pScan)"

text \<open>
  The tests after which a term is returned.  \<open>affCollOk\<close> stands for the two tests of
  the affinity and of the collating sequence, which call functions outside where.c
  (\<^verbatim>\<open>sqlite4IndexAffinityOk\<close>, \<^verbatim>\<open>sqlite4BinaryCompareCollSeq\<close>); it is asked only
  when \<^verbatim>\<open>zCollName\<close> is set and the term is no \<^verbatim>\<open>IS NULL\<close>.  A term \<^verbatim>\<open>X=Y\<close> whose
  right side is the pair the scan started from is passed over.
\<close>

definition whereScan_accepts :: "(8 word \<Rightarrow> string \<Rightarrow> WhereTerm \<Rightarrow> bool) \<Rightarrow> WhereScan \<Rightarrow> WhereTerm \<Rightarrow> bool" where
  "whereScan_accepts affCollOk pScan pTerm \<longleftrightarrow>
     ucast (eOperator pTerm) AND opMask pScan \<noteq> 0
     \<and> (case zCollName pScan of
          None \<Rightarrow> True
        | Some zColl \<Rightarrow> eOperator pTerm AND WO_ISNULL \<noteq> 0 \<or> affCollOk (idxaff pScan) zColl pTerm)
     \<and> \<not> (eOperator pTerm AND WO_EQ \<noteq> 0
          \<and> (case ex_pRight (pExpr pTerm) of
                None \<Rightarrow> False
              | Some pX \<Rightarrow> ex_op pX = TK_COLUMN
                           \<and> ex_iTable pX = aEquiv pScan ! 0
                           \<and> ex_iColumn pX = aEquiv pScan ! 1))"

text \<open>
  \<^verbatim>\<open>whereScanNext\<close>.  The three nested loops of the source (over the pairs of
  \<^verbatim>\<open>aEquiv\<close>, over the clauses of the chain, over the terms of a clause) are one
  recursive function on the scan and the local \<^verbatim>\<open>k\<close>.  The result is the term that is
  returned, by the position of its clause in the chain and its index in the clause, or
  \<open>None\<close> for the null pointer, together with the scan.
\<close>

function whereScanNext_loop ::
  "(8 word \<Rightarrow> string \<Rightarrow> WhereTerm \<Rightarrow> bool) \<Rightarrow> WhereClauseChain \<Rightarrow> WhereScan \<Rightarrow> nat
     \<Rightarrow> (nat \<times> nat) option \<times> WhereScan" where
  "whereScanNext_loop affCollOk pOrigWC pScan k =
     (if iEquiv pScan \<le> nEquiv pScan then
        (if sc_pWC pScan < length pOrigWC then
           (let pWC = pOrigWC ! sc_pWC pScan in
            if k < length pWC then
              (let pTerm = pWC ! k in
               if leftCursor pTerm = aEquiv pScan ! (iEquiv pScan - 2)
                  \<and> leftColumn pTerm = aEquiv pScan ! (iEquiv pScan - 1)
               then
                 (let pScan1 = whereScan_addEquiv pScan pTerm in
                  if whereScan_accepts affCollOk pScan1 pTerm
                  then (Some (sc_pWC pScan1, k), pScan1\<lparr>sc_k := k + 1\<rparr>)
                  else whereScanNext_loop affCollOk pOrigWC pScan1 (k + 1))
               else whereScanNext_loop affCollOk pOrigWC pScan (k + 1))
            else whereScanNext_loop affCollOk pOrigWC (pScan\<lparr>sc_pWC := sc_pWC pScan + 1\<rparr>) 0)
         else whereScanNext_loop affCollOk pOrigWC
                (pScan\<lparr>sc_pWC := 0, iEquiv := iEquiv pScan + 2\<rparr>) 0)
      else (None, pScan))"
  by pat_completeness auto
termination
  by (relation "measures
        [\<lambda>(affCollOk, pOrigWC, pScan, k). max (nEquiv pScan) 23 + 1 - iEquiv pScan,
         \<lambda>(affCollOk, pOrigWC, pScan, k). length pOrigWC - sc_pWC pScan,
         \<lambda>(affCollOk, pOrigWC, pScan, k). length (pOrigWC ! sc_pWC pScan) - k]")
    (auto simp: whereScan_addEquiv_def Let_def split: option.splits)

declare whereScanNext_loop.simps [simp del]

definition whereScanNext ::
  "(8 word \<Rightarrow> string \<Rightarrow> WhereTerm \<Rightarrow> bool) \<Rightarrow> WhereClauseChain \<Rightarrow> WhereScan
     \<Rightarrow> (nat \<times> nat) option \<times> WhereScan" where
  "whereScanNext affCollOk pOrigWC pScan =
     whereScanNext_loop affCollOk pOrigWC pScan (sc_k pScan)"

text \<open>
  What \<^verbatim>\<open>whereScanInit\<close> finds out about the column in the index \<^verbatim>\<open>pIdx\<close>: no index
  or a negative column (\<open>NoIndexColumn\<close>); the affinity of the column and the collation
  of the index field (\<open>IndexColumn\<close>); or, in the branch marked \<^verbatim>\<open>NEVER\<close>, a column that
  the index does not hold (\<open>IndexColumnMissing\<close>).
\<close>

datatype idx_lookup = NoIndexColumn | IndexColumnMissing "8 word" | IndexColumn "8 word" string

text \<open>
  \<^verbatim>\<open>whereScanInit\<close>.  The object \<^verbatim>\<open>pScan\<close> is not cleared (the \<^verbatim>\<open>memset\<close> is
  commented out), so its previous content is an argument.
\<close>

definition whereScanInit ::
  "(8 word \<Rightarrow> string \<Rightarrow> WhereTerm \<Rightarrow> bool) \<Rightarrow> WhereClauseChain \<Rightarrow> WhereScan \<Rightarrow> idx_lookup
     \<Rightarrow> int \<Rightarrow> int \<Rightarrow> 32 word \<Rightarrow> (nat \<times> nat) option \<times> WhereScan" where
  "whereScanInit affCollOk pOrigWC pScan idx iCur iColumn opMask' =
     (case idx of
        IndexColumnMissing aff \<Rightarrow> (None, pScan\<lparr>sc_pWC := 0, idxaff := aff\<rparr>)
      | _ \<Rightarrow>
          whereScanNext affCollOk pOrigWC
            (pScan\<lparr>sc_pWC := 0,
                   idxaff := (case idx of IndexColumn aff zColl \<Rightarrow> aff | _ \<Rightarrow> 0),
                   zCollName := (case idx of IndexColumn aff zColl \<Rightarrow> Some zColl | _ \<Rightarrow> None),
                   opMask := opMask', sc_k := 0,
                   aEquiv := (aEquiv pScan)[0 := iCur, 1 := iColumn],
                   nEquiv := 2, iEquiv := 2\<rparr>))"

text \<open>
  The columns that one equality of the chain of clauses makes equivalent to a column:
  the right sides of the terms marked \<^verbatim>\<open>WO_EQUIV\<close> whose left side is that column.
  \<open>equivReach pOrigWC start n\<close> lists the columns reached from \<open>start\<close> through at most
  \<open>n\<close> such equalities.
\<close>

definition equivHops :: "WhereClauseChain \<Rightarrow> int \<times> int \<Rightarrow> (int \<times> int) list" where
  "equivHops pOrigWC c =
     concat (map (\<lambda>pWC. concat (map (\<lambda>t.
       if leftCursor t = fst c \<and> leftColumn t = snd c \<and> eOperator t AND WO_EQUIV \<noteq> 0
       then (case sqlite4ExprSkipCollate (ex_pRight (pExpr t)) of
               None \<Rightarrow> []
             | Some pX \<Rightarrow> [(ex_iTable pX, ex_iColumn pX)])
       else []) pWC)) pOrigWC)"

fun equivReach :: "WhereClauseChain \<Rightarrow> int \<times> int \<Rightarrow> nat \<Rightarrow> (int \<times> int) list" where
  "equivReach pOrigWC start 0 = [start]"
| "equivReach pOrigWC start (Suc n) =
     equivReach pOrigWC start n @ concat (map (equivHops pOrigWC) (equivReach pOrigWC start n))"

text \<open>
  The invariant of a scan: \<^verbatim>\<open>aEquiv\<close> has its 22 slots, of which an even number
  between 2 and 22 is in use, and the \<open>i\<close>-th pair of \<^verbatim>\<open>aEquiv\<close> is reached from the
  pair 0 through at most \<open>i\<close> equalities.
\<close>

definition scan_inv :: "WhereClauseChain \<Rightarrow> WhereScan \<Rightarrow> bool" where
  "scan_inv pOrigWC pScan \<longleftrightarrow>
     length (aEquiv pScan) = 22
     \<and> even (nEquiv pScan) \<and> 2 \<le> nEquiv pScan \<and> nEquiv pScan \<le> 22
     \<and> even (iEquiv pScan) \<and> 2 \<le> iEquiv pScan
     \<and> (\<forall>i. 2 * i < nEquiv pScan \<longrightarrow>
           (aEquiv pScan ! (2 * i), aEquiv pScan ! Suc (2 * i))
             \<in> set (equivReach pOrigWC (aEquiv pScan ! 0, aEquiv pScan ! Suc 0) i))"

text \<open>
  What a call of \<^verbatim>\<open>whereScanNext\<close> on the scan \<open>pScan\<close> guarantees about its result
  \<open>r\<close>: the invariant holds again, the starting pair is unchanged, a returned term
  lies in the chain and its left side is reached from the starting pair through at most
  10 equalities, and a full \<^verbatim>\<open>aEquiv\<close> is left as it is.
\<close>

definition scan_post :: "WhereClauseChain \<Rightarrow> WhereScan \<Rightarrow> (nat \<times> nat) option \<times> WhereScan \<Rightarrow> bool" where
  "scan_post pOrigWC pScan r \<longleftrightarrow>
     scan_inv pOrigWC (snd r)
     \<and> aEquiv (snd r) ! 0 = aEquiv pScan ! 0 \<and> aEquiv (snd r) ! Suc 0 = aEquiv pScan ! Suc 0
     \<and> (case fst r of
          None \<Rightarrow> True
        | Some (w, k) \<Rightarrow>
            w < length pOrigWC \<and> k < length (pOrigWC ! w)
            \<and> (leftCursor (pOrigWC ! w ! k), leftColumn (pOrigWC ! w ! k))
                 \<in> set (equivReach pOrigWC (aEquiv pScan ! 0, aEquiv pScan ! Suc 0) 10))
     \<and> (nEquiv pScan = 22 \<longrightarrow> aEquiv (snd r) = aEquiv pScan \<and> nEquiv (snd r) = 22)"

definition affCollOk_always :: "8 word \<Rightarrow> string \<Rightarrow> WhereTerm \<Rightarrow> bool" where
  "affCollOk_always aff zColl pTerm = True"

text \<open>
  The clause \<^verbatim>\<open>t1.c0 = t2.c0 AND t2.c0 = 'a'\<close>, analysed, as a chain of one clause, and
  a scan object before its initialisation.
\<close>

definition exampleChain :: WhereClauseChain where
  "exampleChain =
     [[plainTerm (binExpr TK_EQ (colExpr 1 0) (colExpr 2 0)) 1 0 0x402,
       plainTerm (binExpr TK_EQ (colExpr 2 0) (strExpr [97])) 2 0 0x002]]"

definition rawScan :: WhereScan where
  "rawScan = \<lparr>sc_pWC = 0, zCollName = None, idxaff = 0, nEquiv = 0, iEquiv = 0, opMask = 0,
              sc_k = 0, aEquiv = replicate 22 0\<rparr>"

section \<open>Matching one more column of an index\<close>
































section \<open>Analysis of the terms of a WHERE clause\<close>

text \<open>
  \<^verbatim>\<open>struct WhereClause\<close>: the operator that separates the terms and the array
  \<^verbatim>\<open>a[0..nTerm-1]\<close>.  The object that \<^verbatim>\<open>u.pOrInfo\<close> of an OR term points to is kept
  beside the array: \<open>wc_orInfo\<close> lists, for every OR term analysed, its index, the
  mask \<^verbatim>\<open>indexable\<close> and the terms of the clause \<^verbatim>\<open>pOrInfo->wc\<close>.  The clause that
  \<^verbatim>\<open>u.pAndInfo\<close> of a sub-term points to is used by the analysis only for the mask
  it contributes, and is not kept.
\<close>

record WhereClause =
  wc_op :: tk
  wc_a :: "WhereTerm list"
  wc_orInfo :: "(nat \<times> Bitmask \<times> WhereTerm list) list"

text \<open>\<^verbatim>\<open>whereClauseInit\<close>; the operator is set by \<^verbatim>\<open>whereSplit\<close>.\<close>

definition whereClauseInit :: WhereClause where
  "whereClauseInit = \<lparr>wc_op = TK_OTHER, wc_a = [], wc_orInfo = []\<rparr>"

text \<open>
  What the analysis takes from outside where.c.  \<open>env_maskSet\<close> is
  \<^verbatim>\<open>pWInfo->sMaskSet\<close>, \<open>env_mallocFailed\<close> the flag \<^verbatim>\<open>db->mallocFailed\<close> at the entry
  of \<^verbatim>\<open>exprAnalyze\<close> (allocations during a call succeed), \<open>env_transitive\<close> is
  \<^verbatim>\<open>OptimizationEnabled(db, SQLITE4_Transitive)\<close>, \<open>env_vtab\<close> says that the code is
  compiled without \<^verbatim>\<open>SQLITE4_OMIT_VIRTUALTABLE\<close>, and \<open>env_stat3\<close> that it is compiled
  with \<^verbatim>\<open>SQLITE4_ENABLE_STAT3\<close> and that \<^verbatim>\<open>OptimizationEnabled(db, SQLITE4_Stat3)\<close>
  holds.  \<open>env_isLike\<close> is the answer of \<^verbatim>\<open>sqlite4IsLikeFunction\<close> for a call of a
  function with two arguments: the flag \<^verbatim>\<open>noCase\<close> and the three wildcards.
  \<open>env_varText\<close> is the text that \<^verbatim>\<open>sqlite4VdbeGetValue\<close> and
  \<^verbatim>\<open>sqlite4_value_text\<close> give for a bound variable, if it is bound to a text.
  \<open>env_upperToLower\<close> is the table \<^verbatim>\<open>sqlite4UpperToLower\<close>, and \<open>env_collSeq\<close> says
  whether \<^verbatim>\<open>sqlite4ExprCollSeq\<close> is not null.
\<close>

record AnalysisEnv =
  env_maskSet :: WhereMaskSet
  env_mallocFailed :: bool
  env_transitive :: bool
  env_vtab :: bool
  env_stat3 :: bool
  env_isLike :: "Expr \<Rightarrow> (bool \<times> 8 word \<times> 8 word \<times> 8 word) option"
  env_varText :: "int \<Rightarrow> 8 word list option"
  env_upperToLower :: "8 word \<Rightarrow> 8 word"
  env_collSeq :: "Expr \<Rightarrow> bool"

text \<open>
  \<^verbatim>\<open>SQLITE4_AFF_TEXT\<close> is defined in sqliteInt.h, which is not among the sources, as
  the character \<^verbatim>\<open>'a'\<close>; here it only has to differ from 0, which stands for no
  affinity.
\<close>

definition SQLITE4_AFF_TEXT :: "8 word" where
  "SQLITE4_AFF_TEXT = 0x61"

text \<open>Assignments to the fields of an expression node.\<close>

fun set_op :: "tk \<Rightarrow> Expr \<Rightarrow> Expr" where
  "set_op v (Expr op' op2 l r lst it ic z fj rj aff coll virt ec) =
     Expr v op2 l r lst it ic z fj rj aff coll virt ec"

fun set_children :: "Expr option \<Rightarrow> Expr option \<Rightarrow> Expr \<Rightarrow> Expr" where
  "set_children l' r' (Expr op' op2 l r lst it ic z fj rj aff coll virt ec) =
     Expr op' op2 l' r' lst it ic z fj rj aff coll virt ec"

fun set_pList :: "Expr list \<Rightarrow> Expr \<Rightarrow> Expr" where
  "set_pList v (Expr op' op2 l r lst it ic z fj rj aff coll virt ec) =
     Expr op' op2 l r v it ic z fj rj aff coll virt ec"

fun set_coll :: "string \<Rightarrow> Expr \<Rightarrow> Expr" where
  "set_coll v (Expr op' op2 l r lst it ic z fj rj aff coll virt ec) =
     Expr op' op2 l r lst it ic z fj rj aff (Some v) virt ec"

fun set_expCollate :: "bool \<Rightarrow> Expr \<Rightarrow> Expr" where
  "set_expCollate v (Expr op' op2 l r lst it ic z fj rj aff coll virt ec) =
     Expr op' op2 l r lst it ic z fj rj aff coll virt v"

text \<open>
  \<^verbatim>\<open>transferJoinMarkings\<close>:
  \<^verbatim>\<open>pDerived->flags |= pBase->flags & EP_FromJoin; pDerived->iRightJoinTable = pBase->iRightJoinTable\<close>.
\<close>

fun transferJoinMarkings :: "Expr \<Rightarrow> Expr \<Rightarrow> Expr" where
  "transferJoinMarkings (Expr op' op2 l r lst it ic z fj rj aff coll virt ec) pBase =
     Expr op' op2 l r lst it ic z (fj \<or> ex_fromJoin pBase) (ex_iRightJoinTable pBase)
       aff coll virt ec"

text \<open>
  \<^verbatim>\<open>sqlite4PExpr(pParse, op, pLeft, pRight, 0)\<close>: a new node with the two operands,
  either of which may be null.  \<^verbatim>\<open>sqlite4ExprDup\<close> is the identity on values.
\<close>

definition sqlite4PExpr :: "tk \<Rightarrow> Expr option \<Rightarrow> Expr option \<Rightarrow> Expr" where
  "sqlite4PExpr op' l r = Expr op' TK_OTHER l r [] 0 0 [] False 0 0 None False False"

text \<open>
  \<^verbatim>\<open>whereClauseInsert\<close>.  The new slot holds \<^verbatim>\<open>sqlite4ExprSkipCollate(p)\<close>, the flags
  and \<^verbatim>\<open>iParent = -1\<close>; the fields that the source leaves unset are 0 here.  The
  result is the clause and the index of the new term.  A null expression in the slot,
  which \<^verbatim>\<open>exprAnalyze\<close> would dereference, is the value \<open>None\<close>.
\<close>

definition whereClauseInsert ::
  "WhereClause \<Rightarrow> Expr \<Rightarrow> 8 word \<Rightarrow> (WhereClause \<times> nat) option" where
  "whereClauseInsert pWC p flags =
     (case sqlite4ExprSkipCollate (Some p) of
        None \<Rightarrow> None
      | Some e \<Rightarrow>
          Some (pWC\<lparr>wc_a := wc_a pWC @
                   [\<lparr>pExpr = e, iParent = - 1, leftCursor = 0, leftColumn = 0, eOperator = 0,
                     wtFlags = flags, nChild = 0, prereqRight = 0, prereqAll = 0\<rparr>]\<rparr>,
                length (wc_a pWC)))"

text \<open>\<^verbatim>\<open>whereSplit\<close>: one term for every operand of the chain of \<open>op'\<close> nodes.\<close>

fun whereSplit :: "WhereClause \<Rightarrow> Expr option \<Rightarrow> tk \<Rightarrow> WhereClause option" where
  "whereSplit pWC None op' = Some (pWC\<lparr>wc_op := op'\<rparr>)"
| "whereSplit pWC (Some (Expr eop op2 l r lst it ic z fj rj aff coll virt ec)) op' =
     (if eop \<noteq> op' then
        map_option fst
          (whereClauseInsert (pWC\<lparr>wc_op := op'\<rparr>)
             (Expr eop op2 l r lst it ic z fj rj aff coll virt ec) 0)
      else
        (case whereSplit (pWC\<lparr>wc_op := op'\<rparr>) l op' of
           None \<Rightarrow> None
         | Some pWC1 \<Rightarrow> whereSplit pWC1 r op'))"

text \<open>
  \<^verbatim>\<open>exprTableUsage\<close> and \<^verbatim>\<open>exprListTableUsage\<close>: the union of the masks of the
  columns of an expression.
\<close>

fun exprTableUsage :: "WhereMaskSet \<Rightarrow> Expr option \<Rightarrow> Bitmask" where
  "exprTableUsage pMaskSet None = 0"
| "exprTableUsage pMaskSet (Some (Expr op' op2 l r lst it ic z fj rj aff coll virt ec)) =
     (if op' = TK_COLUMN then getMask pMaskSet it
      else exprTableUsage pMaskSet r OR exprTableUsage pMaskSet l
           OR foldl (\<lambda>mask e. mask OR exprTableUsage pMaskSet (Some e)) 0 lst)"

definition exprListTableUsage :: "WhereMaskSet \<Rightarrow> Expr list \<Rightarrow> Bitmask" where
  "exprListTableUsage pMaskSet pList =
     foldl (\<lambda>mask e. mask OR exprTableUsage pMaskSet (Some e)) 0 pList"

text \<open>\<^verbatim>\<open>allowedOp\<close>: \<^verbatim>\<open>op==TK_IN || (op>=TK_EQ && op<=TK_GE) || op==TK_ISNULL\<close>.\<close>

definition allowedOp :: "tk \<Rightarrow> bool" where
  "allowedOp op' \<longleftrightarrow>
     op' = TK_IN \<or> (op' = TK_EQ \<or> op' = TK_GT \<or> op' = TK_LE \<or> op' = TK_LT \<or> op' = TK_GE)
     \<or> op' = TK_ISNULL"

text \<open>
  \<^verbatim>\<open>operatorMask\<close>, called for allowed operators only:
  \<^verbatim>\<open>WO_IN\<close>, \<^verbatim>\<open>WO_ISNULL\<close> or \<^verbatim>\<open>WO_EQ<<(op-TK_EQ)\<close>.
\<close>

definition operatorMask :: "tk \<Rightarrow> 16 word" where
  "operatorMask op' =
     (if op' = TK_IN then WO_IN
      else if op' = TK_ISNULL then WO_ISNULL
      else if op' = TK_EQ then WO_EQ
      else if op' = TK_GT then WO_GT
      else if op' = TK_LE then WO_LE
      else if op' = TK_LT then WO_LT
      else if op' = TK_GE then WO_GE
      else 0)"

text \<open>
  \<^verbatim>\<open>exprCommute\<close>: \<^verbatim>\<open>X op Y\<close> becomes \<^verbatim>\<open>Y op' X\<close>.  Both operands are dereferenced,
  and the operator is asserted to be a comparison; \<open>None\<close> otherwise.
\<close>

definition exprCommute :: "AnalysisEnv \<Rightarrow> Expr \<Rightarrow> Expr option" where
  "exprCommute env e =
     (case (ex_pLeft e, ex_pRight e) of
        (Some l, Some r) \<Rightarrow>
          (if ex_op e = TK_EQ \<or> ex_op e = TK_GT \<or> ex_op e = TK_LE \<or> ex_op e = TK_LT
              \<or> ex_op e = TK_GE then
             let expRight = ex_expCollate r;
                 expLeft = ex_expCollate l;
                 r1 = (if expRight = expLeft \<and> expRight then set_expCollate False r else r);
                 l1 = (if expRight = expLeft \<and> \<not> expRight \<and> env_collSeq env l
                       then set_expCollate True l else l);
                 op1 = (if ex_op e = TK_GT then TK_LT
                        else if ex_op e = TK_LT then TK_GT
                        else if ex_op e = TK_LE then TK_GE
                        else if ex_op e = TK_GE then TK_LE
                        else ex_op e)
             in Some (set_op op1 (set_children (Some r1) (Some l1) e))
           else None)
      | _ \<Rightarrow> None)"

text \<open>The assignment \<open>a[i] := f (a[i])\<close> to a term of a clause.\<close>

definition updTerm :: "WhereClause \<Rightarrow> nat \<Rightarrow> (WhereTerm \<Rightarrow> WhereTerm) \<Rightarrow> WhereClause" where
  "updTerm pWC i f = pWC\<lparr>wc_a := (wc_a pWC)[i := f (wc_a pWC ! i)]\<rparr>"

text \<open>
  \<^verbatim>\<open>exprAnalyze\<close>, from \<^verbatim>\<open>prereqLeft = exprTableUsage(pMaskSet, pExpr->pLeft)\<close> to
  \<^verbatim>\<open>pTerm->eOperator = 0\<close>.  The result is the clause with \<^verbatim>\<open>prereqLeft\<close>,
  \<^verbatim>\<open>prereqAll\<close> and \<^verbatim>\<open>extraRight\<close>.
\<close>

definition exprAnalyze_head ::
  "AnalysisEnv \<Rightarrow> WhereClause \<Rightarrow> nat \<Rightarrow> WhereClause \<times> Bitmask \<times> Bitmask \<times> Bitmask" where
  "exprAnalyze_head env pWC idxTerm =
     (let e = pExpr (wc_a pWC ! idxTerm);
          pMaskSet = env_maskSet env;
          prereqLeft = exprTableUsage pMaskSet (ex_pLeft e);
          pr = (if ex_op e = TK_IN then exprListTableUsage pMaskSet (ex_pList e)
                else if ex_op e = TK_ISNULL then 0
                else exprTableUsage pMaskSet (ex_pRight e));
          x = getMask pMaskSet (ex_iRightJoinTable e);
          pa = (if ex_fromJoin e then exprTableUsage pMaskSet (Some e) OR x
                else exprTableUsage pMaskSet (Some e));
          extraRight = (if ex_fromJoin e then x - 1 else 0)
      in (updTerm pWC idxTerm
            (\<lambda>t. t\<lparr>prereqRight := pr, prereqAll := pa, leftCursor := - 1, iParent := - 1,
                   eOperator := 0\<rparr>),
          prereqLeft, pa, extraRight))"

text \<open>
  The end of the block \<^verbatim>\<open>if( allowedOp(op) )\<close>: \<^verbatim>\<open>exprCommute(pParse, pDup)\<close> and
  the assignments to \<^verbatim>\<open>pNew\<close>, the term of index \<open>iNew\<close>.  The commuted expression
  becomes the expression of that term.
\<close>

definition exprAnalyze_commute ::
  "AnalysisEnv \<Rightarrow> WhereClause \<Rightarrow> nat \<Rightarrow> 16 word \<Rightarrow> 16 word \<Rightarrow> Bitmask \<Rightarrow> Bitmask \<Rightarrow> Bitmask
     \<Rightarrow> WhereClause option" where
  "exprAnalyze_commute env pWC iNew eExtraOp opMask' prereqLeft pa extraRight =
     (case exprCommute env (pExpr (wc_a pWC ! iNew)) of
        None \<Rightarrow> None
      | Some pDup \<Rightarrow>
          (case sqlite4ExprSkipCollate (ex_pLeft pDup) of
             None \<Rightarrow> None
           | Some pLeft \<Rightarrow>
               Some (updTerm pWC iNew
                 (\<lambda>t. t\<lparr>pExpr := pDup, leftCursor := ex_iTable pLeft,
                        leftColumn := ex_iColumn pLeft,
                        prereqRight := prereqLeft OR extraRight, prereqAll := pa,
                        eOperator := (operatorMask (ex_op pDup) + eExtraOp) AND opMask'\<rparr>))))"

text \<open>The block \<^verbatim>\<open>if( allowedOp(op) )\<close> of \<^verbatim>\<open>exprAnalyze\<close>.\<close>

definition exprAnalyze_allowed ::
  "AnalysisEnv \<Rightarrow> WhereClause \<Rightarrow> nat \<Rightarrow> Bitmask \<Rightarrow> Bitmask \<Rightarrow> Bitmask \<Rightarrow> WhereClause option" where
  "exprAnalyze_allowed env pWC idxTerm prereqLeft pa extraRight =
     (let e = pExpr (wc_a pWC ! idxTerm) in
      case sqlite4ExprSkipCollate (ex_pLeft e) of
        None \<Rightarrow> None
      | Some pLeft \<Rightarrow>
          (let pRight = sqlite4ExprSkipCollate (ex_pRight e);
               opMask' = (if prereqRight (wc_a pWC ! idxTerm) AND prereqLeft = 0
                          then WO_ALL else WO_EQUIV);
               pWC1 = (if ex_op pLeft = TK_COLUMN then
                         updTerm pWC idxTerm
                           (\<lambda>t. t\<lparr>leftCursor := ex_iTable pLeft,
                                  leftColumn := ex_iColumn pLeft,
                                  eOperator := operatorMask (ex_op e) AND opMask'\<rparr>)
                       else pWC)
           in if (case pRight of None \<Rightarrow> False | Some r \<Rightarrow> ex_op r = TK_COLUMN) then
                (if 0 \<le> leftCursor (wc_a pWC1 ! idxTerm) then
                   (case whereClauseInsert pWC1 e (TERM_VIRTUAL OR TERM_DYNAMIC) of
                      None \<Rightarrow> None
                    | Some (pWC2, idxNew) \<Rightarrow>
                        (let equiv = (ex_op e = TK_EQ \<and> \<not> ex_fromJoin e
                                      \<and> env_transitive env);
                             pWC3 = updTerm pWC2 idxNew (\<lambda>t. t\<lparr>iParent := int idxTerm\<rparr>);
                             pWC4 = updTerm pWC3 idxTerm
                               (\<lambda>t. t\<lparr>nChild := 1, wtFlags := wtFlags t OR TERM_COPIED,
                                      eOperator := (if equiv then eOperator t OR WO_EQUIV
                                                    else eOperator t)\<rparr>)
                         in exprAnalyze_commute env pWC4 idxNew
                              (if equiv then WO_EQUIV else 0) opMask' prereqLeft pa extraRight))
                 else exprAnalyze_commute env pWC1 idxTerm 0 opMask' prereqLeft pa extraRight)
              else Some pWC1))"

text \<open>
  The loop \<^verbatim>\<open>for(i=pWC->nTerm-1; i>=0; i--) exprAnalyze(pTabList, pWC, i)\<close> of
  \<^verbatim>\<open>exprAnalyzeAll\<close>, for the analyser \<open>an\<close>: \<open>exprAnalyzeAll_loop an pWC n\<close> analyses
  the terms \<open>n - 1\<close>, ..., \<open>0\<close>.  The terms that the analysis appends are not visited.
\<close>

fun exprAnalyzeAll_loop ::
  "(WhereClause \<Rightarrow> nat \<Rightarrow> WhereClause option) \<Rightarrow> WhereClause \<Rightarrow> nat \<Rightarrow> WhereClause option" where
  "exprAnalyzeAll_loop an pWC 0 = Some pWC"
| "exprAnalyzeAll_loop an pWC (Suc i) =
     (case an pWC i of
        None \<Rightarrow> None
      | Some pWC' \<Rightarrow> exprAnalyzeAll_loop an pWC' i)"

definition exprAnalyzeAll ::
  "(WhereClause \<Rightarrow> nat \<Rightarrow> WhereClause option) \<Rightarrow> WhereClause \<Rightarrow> WhereClause option" where
  "exprAnalyzeAll an pWC = exprAnalyzeAll_loop an pWC (length (wc_a pWC))"

text \<open>
  The BETWEEN block of \<^verbatim>\<open>exprAnalyze\<close>: one pass of the loop over
  \<^verbatim>\<open>ops[] = {TK_GE, TK_LE}\<close>, and the block.  The list of a BETWEEN node is asserted
  to have two entries.
\<close>

definition exprAnalyze_between_step ::
  "(WhereClause \<Rightarrow> nat \<Rightarrow> WhereClause option) \<Rightarrow> WhereClause \<Rightarrow> nat \<Rightarrow> tk \<Rightarrow> Expr
     \<Rightarrow> WhereClause option" where
  "exprAnalyze_between_step an pWC idxTerm op' bound =
     (let e = pExpr (wc_a pWC ! idxTerm);
          pNewExpr = sqlite4PExpr op' (ex_pLeft e) (Some bound)
      in case whereClauseInsert pWC pNewExpr (TERM_VIRTUAL OR TERM_DYNAMIC) of
           None \<Rightarrow> None
         | Some (pWC1, idxNew) \<Rightarrow>
             (case an pWC1 idxNew of
                None \<Rightarrow> None
              | Some pWC2 \<Rightarrow> Some (updTerm pWC2 idxNew (\<lambda>t. t\<lparr>iParent := int idxTerm\<rparr>))))"

definition exprAnalyze_between ::
  "(WhereClause \<Rightarrow> nat \<Rightarrow> WhereClause option) \<Rightarrow> WhereClause \<Rightarrow> nat \<Rightarrow> WhereClause option" where
  "exprAnalyze_between an pWC idxTerm =
     (let pList = ex_pList (pExpr (wc_a pWC ! idxTerm)) in
      if length pList \<noteq> 2 then None
      else
        (case exprAnalyze_between_step an pWC idxTerm TK_GE (pList ! 0) of
           None \<Rightarrow> None
         | Some pWC1 \<Rightarrow>
             (case exprAnalyze_between_step an pWC1 idxTerm TK_LE (pList ! 1) of
                None \<Rightarrow> None
              | Some pWC2 \<Rightarrow> Some (updTerm pWC2 idxTerm (\<lambda>t. t\<lparr>nChild := 2\<rparr>)))))"

section \<open>Analysis of an OR term\<close>

text \<open>
  The first loop of \<^verbatim>\<open>exprAnalyzeOrTerm\<close>,
  \<^verbatim>\<open>for(i=pOrWc->nTerm-1, pOrTerm=pOrWc->a; i>=0 && indexable; i--, pOrTerm++)\<close>, on the
  terms \<open>a\<close> of the clause \<^verbatim>\<open>pOrWc\<close> from the position \<open>k\<close>.  The result is the
  array with \<^verbatim>\<open>indexable\<close> and \<^verbatim>\<open>chngToIN\<close>.  A sub-term that is not a single
  comparison is split at \<^verbatim>\<open>TK_AND\<close> and analysed by \<open>an\<close>.  A virtual sub-term reads
  the term \<^verbatim>\<open>pOrWc->a[pOrTerm->iParent]\<close>; outside the array this is the value \<open>None\<close>.
\<close>

function exprAnalyzeOrTerm_tables ::
  "AnalysisEnv \<Rightarrow> (WhereClause \<Rightarrow> nat \<Rightarrow> WhereClause option) \<Rightarrow> WhereTerm list \<Rightarrow> nat
     \<Rightarrow> Bitmask \<Rightarrow> Bitmask \<Rightarrow> (WhereTerm list \<times> Bitmask \<times> Bitmask) option" where
  "exprAnalyzeOrTerm_tables env an a k indexable chngToIN =
     (if k < length a \<and> indexable \<noteq> 0 then
        (let pOrTerm = a ! k in
         if eOperator pOrTerm AND WO_SINGLE = 0 then
           (case whereSplit whereClauseInit (Some (pExpr pOrTerm)) TK_AND of
              None \<Rightarrow> None
            | Some pAndWC0 \<Rightarrow>
                (case exprAnalyzeAll an pAndWC0 of
                   None \<Rightarrow> None
                 | Some pAndWC \<Rightarrow>
                     (let b = foldl (\<lambda>b pAndTerm.
                                if allowedOp (ex_op (pExpr pAndTerm))
                                then b OR getMask (env_maskSet env) (leftCursor pAndTerm)
                                else b) 0 (wc_a pAndWC)
                      in exprAnalyzeOrTerm_tables env an
                           (a[k := pOrTerm\<lparr>wtFlags := wtFlags pOrTerm OR TERM_ANDINFO,
                                          eOperator := WO_AND\<rparr>])
                           (k + 1) (indexable AND b) 0)))
         else if wtFlags pOrTerm AND TERM_COPIED \<noteq> 0 then
           exprAnalyzeOrTerm_tables env an a (k + 1) indexable chngToIN
         else if wtFlags pOrTerm AND TERM_VIRTUAL \<noteq> 0
                 \<and> \<not> (0 \<le> iParent pOrTerm \<and> nat (iParent pOrTerm) < length a) then None
         else
           (let b0 = getMask (env_maskSet env) (leftCursor pOrTerm);
                b = (if wtFlags pOrTerm AND TERM_VIRTUAL \<noteq> 0
                     then b0 OR getMask (env_maskSet env)
                                  (leftCursor (a ! nat (iParent pOrTerm)))
                     else b0)
            in exprAnalyzeOrTerm_tables env an a (k + 1) (indexable AND b)
                 (if eOperator pOrTerm AND WO_EQ = 0 then 0 else chngToIN AND b)))
      else Some (a, indexable, chngToIN))"
  by pat_completeness auto
termination
  by (relation "measure (\<lambda>(env, an, a, k, indexable, chngToIN). length a - k)") auto

declare exprAnalyzeOrTerm_tables.simps [simp del]

text \<open>
  The search for a candidate table and column, in a pass of the loop
  \<^verbatim>\<open>for(j=0; j<2 && !okToChngToIN; j++)\<close>: every term visited loses \<^verbatim>\<open>TERM_OR_OK\<close>,
  and the search stops at the first term whose left cursor is not \<open>iCursor\<close> and is
  in \<^verbatim>\<open>chngToIN\<close>.  The result is the array and the position of that term, if any.
\<close>

function exprAnalyzeOrTerm_search ::
  "AnalysisEnv \<Rightarrow> Bitmask \<Rightarrow> int \<Rightarrow> WhereTerm list \<Rightarrow> nat \<Rightarrow> WhereTerm list \<times> nat option" where
  "exprAnalyzeOrTerm_search env chngToIN iCursor a k =
     (if k < length a then
        (let pOrTerm = a ! k;
             a1 = a[k := pOrTerm\<lparr>wtFlags := wtFlags pOrTerm AND NOT TERM_OR_OK\<rparr>]
         in if leftCursor pOrTerm = iCursor then
              exprAnalyzeOrTerm_search env chngToIN iCursor a1 (k + 1)
            else if chngToIN AND getMask (env_maskSet env) (leftCursor pOrTerm) = 0 then
              exprAnalyzeOrTerm_search env chngToIN iCursor a1 (k + 1)
            else (a1, Some k))
      else (a, None))"
  by pat_completeness auto
termination
  by (relation "measure (\<lambda>(env, chngToIN, iCursor, a, k). length a - k)") auto

declare exprAnalyzeOrTerm_search.simps [simp del]

text \<open>
  \<^verbatim>\<open>sqlite4ExprAffinity\<close> of an operand; the operands of an equality are not null,
  and a null operand has no affinity here.
\<close>

definition sqlite4ExprAffinity :: "Expr option \<Rightarrow> 8 word" where
  "sqlite4ExprAffinity p = (case p of None \<Rightarrow> 0 | Some e \<Rightarrow> ex_aff e)"

text \<open>
  The check that the candidate is common to every term,
  \<^verbatim>\<open>for(; i>=0 && okToChngToIN; i--, pOrTerm++)\<close>, from the position \<open>k\<close>.
\<close>

function exprAnalyzeOrTerm_check ::
  "int \<Rightarrow> int \<Rightarrow> WhereTerm list \<Rightarrow> nat \<Rightarrow> bool \<Rightarrow> WhereTerm list \<times> bool" where
  "exprAnalyzeOrTerm_check iCursor iColumn a k okToChngToIN =
     (if k < length a \<and> okToChngToIN then
        (let pOrTerm = a ! k in
         if leftCursor pOrTerm \<noteq> iCursor then
           exprAnalyzeOrTerm_check iCursor iColumn
             (a[k := pOrTerm\<lparr>wtFlags := wtFlags pOrTerm AND NOT TERM_OR_OK\<rparr>]) (k + 1)
             okToChngToIN
         else if leftColumn pOrTerm \<noteq> iColumn then
           exprAnalyzeOrTerm_check iCursor iColumn a (k + 1) False
         else
           (let affRight = sqlite4ExprAffinity (ex_pRight (pExpr pOrTerm));
                affLeft = sqlite4ExprAffinity (ex_pLeft (pExpr pOrTerm))
            in if affRight \<noteq> 0 \<and> affRight \<noteq> affLeft then
                 exprAnalyzeOrTerm_check iCursor iColumn a (k + 1) False
               else
                 exprAnalyzeOrTerm_check iCursor iColumn
                   (a[k := pOrTerm\<lparr>wtFlags := wtFlags pOrTerm OR TERM_OR_OK\<rparr>]) (k + 1)
                   okToChngToIN))
      else (a, okToChngToIN))"
  by pat_completeness auto
termination
  by (relation "measure (\<lambda>(iCursor, iColumn, a, k, ok). length a - k)") auto

declare exprAnalyzeOrTerm_check.simps [simp del]

text \<open>
  One pass of the loop over \<open>j\<close>: the search, then the check from the term found.
  The result is the array and, when a candidate was found, its cursor and column and
  the outcome of the check.
\<close>

definition exprAnalyzeOrTerm_pass ::
  "AnalysisEnv \<Rightarrow> Bitmask \<Rightarrow> int \<Rightarrow> WhereTerm list
     \<Rightarrow> WhereTerm list \<times> (int \<times> int \<times> bool) option" where
  "exprAnalyzeOrTerm_pass env chngToIN iCursor a =
     (case exprAnalyzeOrTerm_search env chngToIN iCursor a 0 of
        (a1, None) \<Rightarrow> (a1, None)
      | (a1, Some k) \<Rightarrow>
          (case exprAnalyzeOrTerm_check (leftCursor (a1 ! k)) (leftColumn (a1 ! k)) a1 k True of
             (a2, ok) \<Rightarrow> (a2, Some (leftCursor (a1 ! k), leftColumn (a1 ! k), ok))))"

text \<open>
  The loop \<^verbatim>\<open>for(j=0; j<2 && !okToChngToIN; j++)\<close>, which starts with
  \<^verbatim>\<open>iCursor = -1\<close>: the array and \<^verbatim>\<open>okToChngToIN\<close>.
\<close>

definition exprAnalyzeOrTerm_choose ::
  "AnalysisEnv \<Rightarrow> Bitmask \<Rightarrow> WhereTerm list \<Rightarrow> WhereTerm list \<times> bool" where
  "exprAnalyzeOrTerm_choose env chngToIN a =
     (case exprAnalyzeOrTerm_pass env chngToIN (- 1) a of
        (a1, None) \<Rightarrow> (a1, False)
      | (a1, Some (iCursor, iColumn, ok)) \<Rightarrow>
          (if ok then (a1, True)
           else (case exprAnalyzeOrTerm_pass env chngToIN iCursor a1 of
                   (a2, None) \<Rightarrow> (a2, False)
                 | (a2, Some (iCursor2, iColumn2, ok2)) \<Rightarrow> (a2, ok2))))"

text \<open>
  The construction of the IN operator from the terms marked \<^verbatim>\<open>TERM_OR_OK\<close>: the
  list of their right operands, in the order of the array, and the left operand of
  the last of them.  The source asserts that there is such a term, and a right operand
  that is null cannot be an entry of the list; \<open>None\<close> otherwise.  \<open>e\<close> is the
  expression of the OR term.
\<close>

definition exprAnalyzeOrTerm_newExpr :: "WhereTerm list \<Rightarrow> Expr \<Rightarrow> Expr option" where
  "exprAnalyzeOrTerm_newExpr a e =
     (let ok = filter (\<lambda>t. wtFlags t AND TERM_OR_OK \<noteq> 0) a in
      if ok = [] then None
      else
        (case those (map (\<lambda>t. ex_pRight (pExpr t)) ok) of
           None \<Rightarrow> None
         | Some pList \<Rightarrow>
             (case ex_pLeft (pExpr (last ok)) of
                None \<Rightarrow> None
              | Some pLeft \<Rightarrow>
                  Some (set_pList pList
                          (transferJoinMarkings (sqlite4PExpr TK_IN (Some pLeft) None) e)))))"

text \<open>
  The block \<^verbatim>\<open>if( okToChngToIN )\<close>: the new term is inserted, analysed by \<open>an\<close> and
  made a child of the OR term, whose operator becomes \<^verbatim>\<open>WO_NOOP\<close>.
\<close>

definition exprAnalyzeOrTerm_toIN ::
  "(WhereClause \<Rightarrow> nat \<Rightarrow> WhereClause option) \<Rightarrow> WhereClause \<Rightarrow> nat \<Rightarrow> WhereTerm list
     \<Rightarrow> WhereClause option" where
  "exprAnalyzeOrTerm_toIN an pWC idxTerm a =
     (case exprAnalyzeOrTerm_newExpr a (pExpr (wc_a pWC ! idxTerm)) of
        None \<Rightarrow> None
      | Some pNew \<Rightarrow>
          (case whereClauseInsert pWC pNew (TERM_VIRTUAL OR TERM_DYNAMIC) of
             None \<Rightarrow> None
           | Some (pWC1, idxNew) \<Rightarrow>
               (case an pWC1 idxNew of
                  None \<Rightarrow> None
                | Some pWC2 \<Rightarrow>
                    Some (updTerm
                            (updTerm (updTerm pWC2 idxNew (\<lambda>t. t\<lparr>iParent := int idxTerm\<rparr>))
                               idxTerm (\<lambda>t. t\<lparr>nChild := 1\<rparr>))
                            idxTerm (\<lambda>t. t\<lparr>eOperator := WO_NOOP\<rparr>)))))"

text \<open>
  \<^verbatim>\<open>exprAnalyzeOrTerm\<close>, for the analyser \<open>an\<close> that \<^verbatim>\<open>exprAnalyzeAll\<close> and the
  rewrite call.
\<close>

definition exprAnalyzeOrTerm ::
  "AnalysisEnv \<Rightarrow> (WhereClause \<Rightarrow> nat \<Rightarrow> WhereClause option) \<Rightarrow> WhereClause \<Rightarrow> nat
     \<Rightarrow> WhereClause option" where
  "exprAnalyzeOrTerm env an pWC idxTerm =
     (let e = pExpr (wc_a pWC ! idxTerm);
          pWC1 = updTerm pWC idxTerm (\<lambda>t. t\<lparr>wtFlags := wtFlags t OR TERM_ORINFO\<rparr>)
      in case whereSplit whereClauseInit (Some e) TK_OR of
           None \<Rightarrow> None
         | Some pOrWc0 \<Rightarrow>
             (case exprAnalyzeAll an pOrWc0 of
                None \<Rightarrow> None
              | Some pOrWc \<Rightarrow>
                  (case exprAnalyzeOrTerm_tables env an (wc_a pOrWc) 0 (NOT 0) (NOT 0) of
                     None \<Rightarrow> None
                   | Some (a1, indexable, chngToIN) \<Rightarrow>
                       (let pWC2 = updTerm pWC1 idxTerm
                              (\<lambda>t. t\<lparr>eOperator := (if indexable = 0 then 0 else WO_OR)\<rparr>)
                        in if chngToIN \<noteq> 0 then
                             (case exprAnalyzeOrTerm_choose env chngToIN a1 of
                                (a2, okToChngToIN) \<Rightarrow>
                                  (let pWC3 = pWC2\<lparr>wc_orInfo :=
                                         wc_orInfo pWC2 @ [(idxTerm, indexable, a2)]\<rparr>
                                   in if okToChngToIN
                                      then exprAnalyzeOrTerm_toIN an pWC3 idxTerm a2
                                      else Some pWC3))
                           else Some (pWC2\<lparr>wc_orInfo :=
                                        wc_orInfo pWC2 @ [(idxTerm, indexable, a1)]\<rparr>)))))"

section \<open>LIKE, MATCH and NOT NULL terms\<close>

text \<open>The bytes of a C string: those before the first 0.\<close>

definition cstring :: "8 word list \<Rightarrow> 8 word list" where
  "cstring z = takeWhile (\<lambda>c. c \<noteq> 0) z"

text \<open>
  \<^verbatim>\<open>sqlite4IsLikeFunction\<close> is defined in func.c, which is not among the sources.  It
  answers no unless the expression is a call of a function with two arguments; its
  answer for such a call is taken from the environment.
\<close>

definition sqlite4IsLikeFunction ::
  "AnalysisEnv \<Rightarrow> Expr \<Rightarrow> (bool \<times> 8 word \<times> 8 word \<times> 8 word) option" where
  "sqlite4IsLikeFunction env e =
     (if ex_op e \<noteq> TK_FUNCTION \<or> length (ex_pList e) \<noteq> 2 then None else env_isLike env e)"

text \<open>
  The pattern of \<^verbatim>\<open>isLikeOrGlob\<close>: the text \<^verbatim>\<open>z\<close> of the right operand, which is
  the text bound to a variable or the token of a string literal, and is null for any
  other operand.
\<close>

definition isLikeOrGlob_pattern :: "AnalysisEnv \<Rightarrow> Expr \<Rightarrow> 8 word list option" where
  "isLikeOrGlob_pattern env pRight =
     (let op' = (if ex_op pRight = TK_REGISTER then ex_op2 pRight else ex_op pRight) in
      if op' = TK_VARIABLE then map_option cstring (env_varText env (ex_iColumn pRight))
      else if op' = TK_STRING then Some (cstring (ex_zToken pRight))
      else None)"

text \<open>
  \<^verbatim>\<open>isLikeOrGlob\<close>.  The result is \<^verbatim>\<open>*ppPrefix\<close>, \<^verbatim>\<open>*pisComplete\<close> and \<^verbatim>\<open>*pnoCase\<close>
  when the function returns true.  \<open>cnt\<close> is the number of bytes before the first
  wildcard or the end of the pattern; the wildcards of a LIKE function are not 0.
\<close>

definition isLikeOrGlob :: "AnalysisEnv \<Rightarrow> Expr \<Rightarrow> (Expr \<times> bool \<times> bool) option" where
  "isLikeOrGlob env e =
     (case sqlite4IsLikeFunction env e of
        None \<Rightarrow> None
      | Some (noCase, wc0, wc1, wc2) \<Rightarrow>
          (let pLeft = ex_pList e ! 1 in
           if ex_op pLeft \<noteq> TK_COLUMN \<or> ex_aff pLeft \<noteq> SQLITE4_AFF_TEXT \<or> ex_isVirtual pLeft
           then None
           else
             (case isLikeOrGlob_pattern env (ex_pList e ! 0) of
                None \<Rightarrow> None
              | Some z \<Rightarrow>
                  (let cnt = length (takeWhile (\<lambda>c. c \<noteq> wc0 \<and> c \<noteq> wc1 \<and> c \<noteq> wc2) z)
                   in if cnt \<noteq> 0 \<and> z ! (cnt - 1) \<noteq> 255 then
                        Some (strExpr (take cnt z),
                              cnt < length z \<and> z ! cnt = wc0 \<and> Suc cnt = length z,
                              noCase)
                      else None))))"

text \<open>
  The LIKE block of \<^verbatim>\<open>exprAnalyze\<close>.  \<open>pStr2\<close> is the copy of the prefix whose last
  byte \<open>c\<close> is replaced by \<^verbatim>\<open>c + 1\<close>, after \<^verbatim>\<open>c = sqlite4UpperToLower[c]\<close> when
  \<^verbatim>\<open>noCase\<close> is set.  \<^verbatim>\<open>sqlite4ExprSetCollByToken\<close> is defined outside where.c; it
  attaches the collation of the given name to the copy of the left operand.
\<close>

definition exprAnalyze_like ::
  "AnalysisEnv \<Rightarrow> (WhereClause \<Rightarrow> nat \<Rightarrow> WhereClause option) \<Rightarrow> WhereClause \<Rightarrow> nat
     \<Rightarrow> WhereClause option" where
  "exprAnalyze_like env an pWC idxTerm =
     (let e = pExpr (wc_a pWC ! idxTerm) in
      if wc_op pWC = TK_AND then
        (case isLikeOrGlob env e of
           None \<Rightarrow> Some pWC
         | Some (pStr1, isComplete0, noCase) \<Rightarrow>
             (let pLeft = ex_pList e ! 1;
                  z = ex_zToken pStr1;
                  c = last z;
                  isComplete = (if noCase \<and> c = 0x40 then False else isComplete0);
                  c1 = (if noCase then env_upperToLower env c else c);
                  pStr2 = strExpr (butlast z @ [c1 + 1]);
                  zColl = (if noCase then ''NOCASE'' else ''BINARY'');
                  pNewExpr1 = sqlite4PExpr TK_GE (Some (set_coll zColl pLeft)) (Some pStr1);
                  pNewExpr2 = sqlite4PExpr TK_LT (Some (set_coll zColl pLeft)) (Some pStr2)
              in case whereClauseInsert pWC pNewExpr1 (TERM_VIRTUAL OR TERM_DYNAMIC) of
                   None \<Rightarrow> None
                 | Some (pWC1, idxNew1) \<Rightarrow>
                     (case an pWC1 idxNew1 of
                        None \<Rightarrow> None
                      | Some pWC2 \<Rightarrow>
                          (case whereClauseInsert pWC2 pNewExpr2
                                  (TERM_VIRTUAL OR TERM_DYNAMIC) of
                             None \<Rightarrow> None
                           | Some (pWC3, idxNew2) \<Rightarrow>
                               (case an pWC3 idxNew2 of
                                  None \<Rightarrow> None
                                | Some pWC4 \<Rightarrow>
                                    Some (if isComplete then
                                            updTerm
                                              (updTerm
                                                 (updTerm pWC4 idxNew1
                                                    (\<lambda>t. t\<lparr>iParent := int idxTerm\<rparr>))
                                                 idxNew2 (\<lambda>t. t\<lparr>iParent := int idxTerm\<rparr>))
                                              idxTerm (\<lambda>t. t\<lparr>nChild := 2\<rparr>)
                                          else pWC4))))))
      else Some pWC)"

text \<open>
  \<^verbatim>\<open>isMatchOfColumn\<close>.  \<^verbatim>\<open>sqlite4_stricmp\<close> compares the two names byte by byte
  after the translation by \<^verbatim>\<open>sqlite4UpperToLower\<close>; the second name is \<^verbatim>\<open>"match"\<close>.
\<close>

definition isMatchOfColumn :: "AnalysisEnv \<Rightarrow> Expr \<Rightarrow> bool" where
  "isMatchOfColumn env e \<longleftrightarrow>
     ex_op e = TK_FUNCTION
     \<and> map (env_upperToLower env) (cstring (ex_zToken e))
         = map (env_upperToLower env) [0x6d, 0x61, 0x74, 0x63, 0x68]
     \<and> length (ex_pList e) = 2
     \<and> ex_op (ex_pList e ! 1) = TK_COLUMN"

text \<open>The MATCH block of \<^verbatim>\<open>exprAnalyze\<close>, compiled in when virtual tables are.\<close>

definition exprAnalyze_match :: "AnalysisEnv \<Rightarrow> WhereClause \<Rightarrow> nat \<Rightarrow> WhereClause option" where
  "exprAnalyze_match env pWC idxTerm =
     (let e = pExpr (wc_a pWC ! idxTerm) in
      if env_vtab env \<and> isMatchOfColumn env e then
        (let pRight = ex_pList e ! 0;
             pLeft = ex_pList e ! 1;
             prereqExpr = exprTableUsage (env_maskSet env) (Some pRight);
             prereqColumn = exprTableUsage (env_maskSet env) (Some pLeft)
         in if prereqExpr AND prereqColumn = 0 then
              (case whereClauseInsert pWC (sqlite4PExpr TK_MATCH None (Some pRight))
                      (TERM_VIRTUAL OR TERM_DYNAMIC) of
                 None \<Rightarrow> None
               | Some (pWC1, idxNew) \<Rightarrow>
                   (let pWC2 = updTerm pWC1 idxNew
                          (\<lambda>t. t\<lparr>prereqRight := prereqExpr, leftCursor := ex_iTable pLeft,
                                 leftColumn := ex_iColumn pLeft, eOperator := WO_MATCH,
                                 iParent := int idxTerm\<rparr>);
                        pWC3 = updTerm pWC2 idxTerm
                          (\<lambda>t. t\<lparr>nChild := 1, wtFlags := wtFlags t OR TERM_COPIED\<rparr>)
                    in Some (updTerm pWC3 idxNew
                               (\<lambda>t. t\<lparr>prereqAll := prereqAll (wc_a pWC3 ! idxTerm)\<rparr>))))
            else Some pWC)
      else Some pWC)"

text \<open>
  The block of \<^verbatim>\<open>exprAnalyze\<close> for \<^verbatim>\<open>x IS NOT NULL\<close>, compiled in with
  \<^verbatim>\<open>SQLITE4_ENABLE_STAT3\<close>.  The left operand is dereferenced.
\<close>

definition exprAnalyze_notnull :: "AnalysisEnv \<Rightarrow> WhereClause \<Rightarrow> nat \<Rightarrow> WhereClause option" where
  "exprAnalyze_notnull env pWC idxTerm =
     (let e = pExpr (wc_a pWC ! idxTerm) in
      if env_stat3 env \<and> ex_op e = TK_NOTNULL then
        (case ex_pLeft e of
           None \<Rightarrow> None
         | Some pLeft \<Rightarrow>
             (if ex_op pLeft = TK_COLUMN \<and> 0 \<le> ex_iColumn pLeft then
                (case whereClauseInsert pWC
                        (sqlite4PExpr TK_GT (Some pLeft) (Some (sqlite4PExpr TK_NULL None None)))
                        (TERM_VIRTUAL OR TERM_DYNAMIC OR TERM_VNULL True) of
                   None \<Rightarrow> None
                 | Some (pWC1, idxNew) \<Rightarrow>
                     (let pWC2 = updTerm pWC1 idxNew
                            (\<lambda>t. t\<lparr>prereqRight := 0, leftCursor := ex_iTable pLeft,
                                   leftColumn := ex_iColumn pLeft, eOperator := WO_GT,
                                   iParent := int idxTerm\<rparr>);
                          pWC3 = updTerm pWC2 idxTerm
                            (\<lambda>t. t\<lparr>nChild := 1, wtFlags := wtFlags t OR TERM_COPIED\<rparr>)
                      in Some (updTerm pWC3 idxNew
                                 (\<lambda>t. t\<lparr>prereqAll := prereqAll (wc_a pWC3 ! idxTerm)\<rparr>))))
              else Some pWC))
      else Some pWC)"

section \<open>The analysis of a term\<close>

text \<open>
  \<^verbatim>\<open>exprAnalyze\<close>.  The function calls itself on the terms it appends and, through
  \<^verbatim>\<open>exprAnalyzeOrTerm\<close>, on the terms of the clauses it splits off; the first argument
  bounds the depth of these calls, and \<open>None\<close> is the result when the bound is reached
  or when the source reads a null pointer or beyond an array.
\<close>

primrec exprAnalyze :: "nat \<Rightarrow> AnalysisEnv \<Rightarrow> WhereClause \<Rightarrow> nat \<Rightarrow> WhereClause option" where
  "exprAnalyze 0 env pWC idxTerm = None"
| "exprAnalyze (Suc fuel) env pWC idxTerm =
     (if env_mallocFailed env then Some pWC
      else if length (wc_a pWC) \<le> idxTerm then None
      else
        (case exprAnalyze_head env pWC idxTerm of
           (pWC1, prereqLeft, pa, extraRight) \<Rightarrow>
             (let e = pExpr (wc_a pWC ! idxTerm) in
              case (if allowedOp (ex_op e) then
                      exprAnalyze_allowed env pWC1 idxTerm prereqLeft pa extraRight
                    else if ex_op e = TK_BETWEEN \<and> wc_op pWC = TK_AND then
                      exprAnalyze_between (exprAnalyze fuel env) pWC1 idxTerm
                    else if ex_op e = TK_OR then
                      exprAnalyzeOrTerm env (exprAnalyze fuel env) pWC1 idxTerm
                    else Some pWC1) of
                None \<Rightarrow> None
              | Some pWC2 \<Rightarrow>
                  (case exprAnalyze_like env (exprAnalyze fuel env) pWC2 idxTerm of
                     None \<Rightarrow> None
                   | Some pWC3 \<Rightarrow>
                       (case exprAnalyze_match env pWC3 idxTerm of
                          None \<Rightarrow> None
                        | Some pWC4 \<Rightarrow>
                            (case exprAnalyze_notnull env pWC4 idxTerm of
                               None \<Rightarrow> None
                             | Some pWC5 \<Rightarrow>
                                 Some (updTerm pWC5 idxTerm
                                   (\<lambda>t. t\<lparr>prereqRight := prereqRight t OR extraRight\<rparr>))))))))"

declare exprAnalyze.simps [simp del]

section \<open>Examples of clauses\<close>

text \<open>
  A mask set with the cursors 0 and 1, the translation of the ASCII capital letters
  to small letters, and an environment in which every call of a function with two
  arguments is a LIKE with the wildcards \<^verbatim>\<open>%\<close> and \<^verbatim>\<open>_\<close>.
\<close>

definition twoCursors :: WhereMaskSet where
  "twoCursors = \<lparr>ms_n = 2, ms_ix = [0, 1]\<rparr>"

definition asciiUpperToLower :: "8 word \<Rightarrow> 8 word" where
  "asciiUpperToLower c = (if 0x41 \<le> c \<and> c \<le> 0x5a then c + 0x20 else c)"

definition likeEnv :: "bool \<Rightarrow> AnalysisEnv" where
  "likeEnv noCase =
     \<lparr>env_maskSet = twoCursors, env_mallocFailed = False, env_transitive = True,
      env_vtab = True, env_stat3 = True,
      env_isLike = (\<lambda>e. Some (noCase, 0x25, 0x5f, 0)),
      env_varText = (\<lambda>i. None), env_upperToLower = asciiUpperToLower,
      env_collSeq = (\<lambda>e. False)\<rparr>"

text \<open>
  The column 1 of the cursor 0, with TEXT affinity; the call \<^verbatim>\<open>like(z, column)\<close>,
  which is how \<^verbatim>\<open>column LIKE z\<close> is parsed; and the clause whose only term is a
  given expression.
\<close>

definition textColumn :: Expr where
  "textColumn =
     Expr TK_COLUMN TK_OTHER None None [] 0 1 [] False 0 SQLITE4_AFF_TEXT None False False"

definition likeCall :: "8 word list \<Rightarrow> Expr" where
  "likeCall z =
     Expr TK_FUNCTION TK_OTHER None None [strExpr z, textColumn] 0 0
       [0x6c, 0x69, 0x6b, 0x65] False 0 0 None False False"

definition andClause :: "Expr \<Rightarrow> WhereClause" where
  "andClause e = \<lparr>wc_op = TK_AND, wc_a = [plainTerm e 0 0 0], wc_orInfo = []\<rparr>"

text \<open>
  A number; the term \<^verbatim>\<open>t.a = t.b + 5 OR t.a = 5\<close>, whose first right operand uses
  the table of the left operands; and the term \<^verbatim>\<open>t.a = 5 OR t.a = u.c\<close>.  The table
  \<^verbatim>\<open>t\<close> has the cursor 0 and \<^verbatim>\<open>u\<close> the cursor 1.
\<close>

definition numExpr :: Expr where
  "numExpr = Expr TK_OTHER TK_OTHER None None [] 0 0 [0x35] False 0 0 None False False"

definition orSameTable :: Expr where
  "orSameTable =
     binExpr TK_OR (binExpr TK_EQ (colExpr 0 1) (binExpr TK_OTHER (colExpr 0 2) numExpr))
       (binExpr TK_EQ (colExpr 0 1) numExpr)"

definition orSameColumn :: Expr where
  "orSameColumn =
     binExpr TK_OR (binExpr TK_EQ (colExpr 0 1) (colExpr 0 2))
       (binExpr TK_EQ (colExpr 0 1) numExpr)"

definition orUnknownCursor :: Expr where
  "orUnknownCursor =
     binExpr TK_OR (binExpr TK_EQ (colExpr 7 1) numExpr)
       (binExpr TK_EQ (colExpr 7 1) numExpr)"

definition orOtherTable :: Expr where
  "orOtherTable =
     binExpr TK_OR (binExpr TK_EQ (colExpr 0 1) numExpr)
       (binExpr TK_EQ (colExpr 0 1) (colExpr 1 3))"

section \<open>The rewrites, as described\<close>

text \<open>
  The two bounds that the rewrite of \<^verbatim>\<open>x LIKE pattern\<close> appends for a prefix: the
  column with the collation \<^verbatim>\<open>NOCASE\<close> or \<^verbatim>\<open>BINARY\<close>, not below the prefix, and below
  the prefix whose last byte, translated to lower case when case is ignored, is
  incremented by one.
\<close>

definition spec_like_bounds :: "AnalysisEnv \<Rightarrow> bool \<Rightarrow> Expr \<Rightarrow> 8 word list \<Rightarrow> Expr list" where
  "spec_like_bounds env noCase x prefix =
     [sqlite4PExpr TK_GE (Some (set_coll (if noCase then ''NOCASE'' else ''BINARY'') x))
        (Some (strExpr prefix)),
      sqlite4PExpr TK_LT (Some (set_coll (if noCase then ''NOCASE'' else ''BINARY'') x))
        (Some (strExpr (butlast prefix @
           [(if noCase then env_upperToLower env (last prefix) else last prefix) + 1])))]"

text \<open>The prefix whose last byte is incremented by one.\<close>

definition spec_succ :: "8 word list \<Rightarrow> 8 word list" where
  "spec_succ prefix = butlast prefix @ [last prefix + 1]"

section \<open>The sub-terms of an OR term that is rewritten\<close>

text \<open>
  An equality \<^verbatim>\<open>T.C = Expr\<close> with compatible affinity, as the claim on the rewrite
  of an OR term has it: the left operand is the column \<open>C\<close> of the cursor \<open>T\<close>, and
  the affinity of the right operand is none or that of the column.
\<close>

definition spec_eqClaim :: "int \<Rightarrow> int \<Rightarrow> Expr \<Rightarrow> bool" where
  "spec_eqClaim T C l \<longleftrightarrow>
     ex_op l = TK_EQ
     \<and> (case ex_pLeft l of
          None \<Rightarrow> False
        | Some x \<Rightarrow>
            ex_op x = TK_COLUMN \<and> ex_iTable x = T \<and> ex_iColumn x = C
            \<and> (case ex_pRight l of
                 None \<Rightarrow> False
               | Some r \<Rightarrow> ex_aff r = 0 \<or> ex_aff r = ex_aff x))"

text \<open>
  The equalities of the amended claim: in addition, the right operand does not use
  the cursor \<open>T\<close>.
\<close>

definition spec_eqTerm :: "WhereMaskSet \<Rightarrow> int \<Rightarrow> int \<Rightarrow> Expr \<Rightarrow> bool" where
  "spec_eqTerm pMaskSet T C l \<longleftrightarrow>
     spec_eqClaim T C l
     \<and> exprTableUsage pMaskSet (ex_pRight l) AND getMask pMaskSet T = 0"

text \<open>
  The IN operator that the rewrite builds from the operands \<open>ls\<close> of the OR
  expression \<open>e\<close>, whose right operands are \<open>rs\<close>: the left operand of the last
  equality, the list of the right operands, and the join markings of \<open>e\<close>.
\<close>

definition spec_inExpr :: "Expr \<Rightarrow> Expr list \<Rightarrow> Expr list \<Rightarrow> Expr" where
  "spec_inExpr e ls rs =
     set_pList rs (transferJoinMarkings (sqlite4PExpr TK_IN (ex_pLeft (last ls)) None) e)"

text \<open>
  The states of the array of the clause \<^verbatim>\<open>pOrWc\<close> while \<^verbatim>\<open>exprAnalyzeAll\<close> runs on
  \<open>n\<close> such equalities.  An analysed equality has the cursor and the column on its
  left and is not virtual; the commuted copy of an equality is virtual, has another
  cursor on its left, and its parent is one of the \<open>n\<close> equalities.  The terms below
  \<open>k\<close> are not analysed yet, the terms from \<open>k\<close> to \<open>n - 1\<close> are, and the terms from
  \<open>n\<close> are copies.
\<close>

definition or_orig :: "WhereMaskSet \<Rightarrow> int \<Rightarrow> int \<Rightarrow> WhereTerm \<Rightarrow> bool" where
  "or_orig pMaskSet T C t \<longleftrightarrow>
     leftCursor t = T \<and> leftColumn t = C \<and> eOperator t AND WO_EQ \<noteq> 0
     \<and> wtFlags t AND TERM_VIRTUAL = 0 \<and> spec_eqTerm pMaskSet T C (pExpr t)"

definition or_twin :: "nat \<Rightarrow> int \<Rightarrow> WhereTerm \<Rightarrow> bool" where
  "or_twin n T t \<longleftrightarrow>
     wtFlags t AND TERM_VIRTUAL \<noteq> 0 \<and> wtFlags t AND TERM_COPIED = 0
     \<and> leftCursor t \<noteq> T \<and> eOperator t AND WO_EQ \<noteq> 0
     \<and> 0 \<le> iParent t \<and> nat (iParent t) < n"

definition or_inv ::
  "WhereMaskSet \<Rightarrow> int \<Rightarrow> int \<Rightarrow> nat \<Rightarrow> nat \<Rightarrow> WhereTerm list \<Rightarrow> bool" where
  "or_inv pMaskSet T C n k a \<longleftrightarrow>
     k \<le> n \<and> n \<le> length a
     \<and> (\<forall>j<k. a ! j = plainTerm (pExpr (a ! j)) 0 0 0 \<and> spec_eqTerm pMaskSet T C (pExpr (a ! j)))
     \<and> (\<forall>j. k \<le> j \<and> j < n \<longrightarrow> or_orig pMaskSet T C (a ! j))
     \<and> (\<forall>j. n \<le> j \<and> j < length a \<longrightarrow> or_twin n T (a ! j))"

section \<open>A range on the first column of an index\<close>











section \<open>Properties of the cost arithmetic\<close>

lemma whereCostAdd_x_range:
  assumes "i < 32"
  shows "2 \<le> uint (whereCostAdd_x ! i) \<and> uint (whereCostAdd_x ! i) \<le> 10"
proof -
  have "list_all (\<lambda>v. 2 \<le> uint v \<and> uint v \<le> 10) whereCostAdd_x"
    by (simp add: whereCostAdd_x_def)
  moreover have "length whereCostAdd_x = 32"
    by (simp add: whereCostAdd_x_def)
  ultimately show ?thesis
    using assms by (simp add: list_all_length)
qed

lemma cost_small_add:
  fixes a k :: "16 word"
  assumes "uint a \<le> 6900" and "uint k \<le> 10"
  shows "uint (a + k) = uint a + uint k"
proof -
  have "uint a + uint k < 2 ^ LENGTH(16)"
    using assms by simp
  then show ?thesis
    by (simp only: uint_add_lem)
qed

lemma uint_ucast_8_16: "uint (ucast (v :: 8 word) :: 16 word) = uint v"
  by (simp add: uint_up_ucast is_up)

lemma whereCostAdd_ge_bounds:
  assumes "b \<le> a" and "uint a \<le> 6900"
  shows "uint a \<le> uint (whereCostAdd a b) \<and> uint (whereCostAdd a b) \<le> uint a + 10"
proof -
  have ba: "uint b \<le> uint a"
    using assms(1) by (simp add: word_le_def)
  show ?thesis
  proof (cases "uint a > uint b + 31")
    case True
    have "uint (a + 1) = uint a + 1"
      using cost_small_add [OF assms(2), of 1] by simp
    then show ?thesis
      using True assms by (simp add: whereCostAdd_def)
  next
    case False
    then have "nat (uint a - uint b) < 32"
      using ba by auto
    from whereCostAdd_x_range [OF this]
    have r: "2 \<le> uint (whereCostAdd_x ! nat (uint a - uint b))"
      "uint (whereCostAdd_x ! nat (uint a - uint b)) \<le> 10"
      by simp_all
    have "uint (a + ucast (whereCostAdd_x ! nat (uint a - uint b)))
         = uint a + uint (whereCostAdd_x ! nat (uint a - uint b))"
      using cost_small_add [OF assms(2), of "ucast (whereCostAdd_x ! nat (uint a - uint b))"] r
      by (simp add: uint_ucast_8_16)
    then show ?thesis
      using False assms r by (simp add: whereCostAdd_def)
  qed
qed

lemma whereCostAdd_commute: "whereCostAdd a b = whereCostAdd b a"
proof (cases "a = b")
  case True
  then show ?thesis by simp
next
  case False
  then show ?thesis by (auto simp: whereCostAdd_def)
qed

text \<open>
  C3.  For all 16-bit costs \<open>a\<close> and \<open>b\<close> that are at most 6900, \<^verbatim>\<open>whereCostAdd\<close> is
  symmetric, and its result lies between the larger argument and the larger argument
  plus ten (as integers, without wrap-around).
\<close>

theorem whereCostAdd_symmetric_bounded:
  assumes "uint a \<le> 6900" and "uint b \<le> 6900"
  shows "whereCostAdd a b = whereCostAdd b a
       \<and> uint (max a b) \<le> uint (whereCostAdd a b)
       \<and> uint (whereCostAdd a b) \<le> uint (max a b) + 10"
proof (cases "b \<le> a")
  case True
  then have "max a b = a"
    by (simp add: max_def)
  then show ?thesis
    using whereCostAdd_ge_bounds [OF True assms(1)] whereCostAdd_commute [of a b] by simp
next
  case False
  then have ab: "a \<le> b"
    by simp
  then have "max a b = b"
    by (simp add: max_def)
  then show ?thesis
    using whereCostAdd_ge_bounds [OF ab assms(2)] whereCostAdd_commute [of a b] by simp
qed

theorem whereCostAdd_symmetric_bounded_witness:
  "uint (100 :: WhereCost) \<le> 6900 \<and> uint (90 :: WhereCost) \<le> 6900
   \<and> whereCostAdd 100 90 = whereCostAdd 90 100
   \<and> uint (max (100 :: WhereCost) 90) \<le> uint (whereCostAdd 100 90)
   \<and> uint (whereCostAdd 100 90) \<le> uint (max (100 :: WhereCost) 90) + 10"
proof -
  have h1: "uint (100 :: WhereCost) \<le> 6900"
    by simp
  have h2: "uint (90 :: WhereCost) \<le> 6900"
    by simp
  show ?thesis
    using h1 h2 whereCostAdd_symmetric_bounded [OF h1 h2] by blast
qed

text \<open>
  C10.  The claim is that the row count reported by \<^verbatim>\<open>sqlite4WhereOutputRowCount\<close>
  is at least one for every 16-bit estimate.  At the estimate 640 (two to the power 64
  rows) the shift \<^verbatim>\<open>8<<61\<close> leaves the 64-bit range and the reported count is zero.
\<close>

theorem sqlite4WhereOutputRowCount_640: "sqlite4WhereOutputRowCount 640 = Some 0"
  by (simp add: sqlite4WhereOutputRowCount_def whereCostToInt_def Let_def)

section \<open>Properties of the cursor bitmap\<close>

lemma createMask_all_gen:
  "ms_n ms + length cs \<le> length (ms_ix ms) \<Longrightarrow>
   createMask_all ms cs =
     Some (ms\<lparr>ms_ix := take (ms_n ms) (ms_ix ms) @ cs @ drop (ms_n ms + length cs) (ms_ix ms),
               ms_n := ms_n ms + length cs\<rparr>)"
proof (induction cs arbitrary: ms)
  case Nil
  then show ?case by simp
next
  case (Cons c cs)
  let ?ms' = "ms\<lparr>ms_ix := (ms_ix ms)[ms_n ms := c], ms_n := ms_n ms + 1\<rparr>"
  have lt: "ms_n ms < length (ms_ix ms)" using Cons.prems by simp
  have step: "createMask ms c = Some ?ms'" using lt by (simp add: createMask_def)
  have pre: "ms_n ?ms' + length cs \<le> length (ms_ix ?ms')" using Cons.prems by simp
  have tk: "take (Suc (ms_n ms)) ((ms_ix ms)[ms_n ms := c]) = take (ms_n ms) (ms_ix ms) @ [c]"
    using lt by (simp add: take_Suc_conv_app_nth)
  show ?case
    using Cons.IH [OF pre] step tk by simp
qed

lemma getMask_loop_found:
  assumes "p < ms_n ms" "ms_ix ms ! p = c" "i \<le> p" "\<forall>q. i \<le> q \<and> q < p \<longrightarrow> ms_ix ms ! q \<noteq> c"
  shows "getMask_loop ms c i = MASKBIT p"
  using assms
proof (induction "p - i" arbitrary: i)
  case 0
  then have "i = p" by simp
  then show ?case using 0 by (simp add: getMask_loop.simps)
next
  case (Suc d)
  then have "i < p" by simp
  then have ne: "ms_ix ms ! i \<noteq> c" using Suc.prems by simp
  have "getMask_loop ms c (i + 1) = MASKBIT p"
    using Suc by (intro Suc.hyps(1)) auto
  then show ?case using ne \<open>i < p\<close> Suc.prems(1)
    by (subst getMask_loop.simps) simp
qed

lemma getMask_distinct:
  assumes "distinct (take (ms_n ms) (ms_ix ms))" "p < ms_n ms" "ms_n ms \<le> length (ms_ix ms)"
  shows "getMask ms (ms_ix ms ! p) = MASKBIT p"
proof -
  have "\<forall>q. 0 \<le> q \<and> q < p \<longrightarrow> ms_ix ms ! q \<noteq> ms_ix ms ! p"
  proof (intro allI impI)
    fix q assume q: "0 \<le> q \<and> q < p"
    have "take (ms_n ms) (ms_ix ms) ! q \<noteq> take (ms_n ms) (ms_ix ms) ! p"
      using assms q by (simp add: nth_eq_iff_index_eq del: nth_take)
    then show "ms_ix ms ! q \<noteq> ms_ix ms ! p" using assms q by simp
  qed
  then show ?thesis
    unfolding getMask_def using assms by (intro getMask_loop_found) auto
qed

lemma toTheLeft_append:
  "toTheLeft ms (xs @ ys) acc = toTheLeft ms ys (toTheLeft ms xs acc)"
  by (induction xs arbitrary: acc) auto

lemma mask_and_le: "i \<le> j \<Longrightarrow> (mask i :: Bitmask) AND mask j = mask i"
  by (rule bit_word_eqI) (auto simp: bit_simps)

lemma mask_neq: "i < j \<Longrightarrow> j \<le> 64 \<Longrightarrow> (mask i :: Bitmask) \<noteq> mask j"
proof
  assume a: "i < j" "j \<le> 64" "(mask i :: Bitmask) = mask j"
  have "bit (mask j :: Bitmask) i" using a by (simp add: bit_simps)
  moreover have "\<not> bit (mask i :: Bitmask) i" by (simp add: bit_simps)
  ultimately show False using a by simp
qed

lemma MASKBIT_minus_1: "MASKBIT i - 1 = mask i"
  by (simp add: MASKBIT_def mask_eq_exp_minus_1 push_bit_of_1)

lemma mask_Suc_MASKBIT: "mask i OR MASKBIT i = (mask (Suc i) :: Bitmask)"
  by (simp add: MASKBIT_def push_bit_of_1 mask_Suc_exp or.commute)


lemma whereBegin_masks_Inr:
  assumes "sqlite4WhereBegin_masks mallocFailed pTabList = Inr ms"
  shows "length pTabList \<le> BMS \<and> ms_n ms = length pTabList
       \<and> ms_ix ms = pTabList @ replicate (BMS - length pTabList) 0"
proof -
  have le: "length pTabList \<le> BMS" and nf: "\<not> mallocFailed"
    using assms by (auto simp: sqlite4WhereBegin_masks_def split: if_splits)
  have pre: "ms_n (initMaskSet zeroMaskSet) + length pTabList
             \<le> length (ms_ix (initMaskSet zeroMaskSet))"
    using le by (simp add: initMaskSet_def zeroMaskSet_def)
  have "createMask_all (initMaskSet zeroMaskSet) pTabList = Some ms"
    using assms le nf by (auto simp: sqlite4WhereBegin_masks_def split: option.splits)
  then show ?thesis
    using createMask_all_gen [OF pre] le by (auto simp: initMaskSet_def zeroMaskSet_def)
qed

lemma toTheLeft_prefix:
  assumes "distinct (take (ms_n ms) (ms_ix ms))" "ms_n ms \<le> length (ms_ix ms)" "i \<le> ms_n ms"
  shows "toTheLeft ms (take i (ms_ix ms)) 0 = mask i"
  using assms(3)
proof (induction i)
  case 0
  then show ?case by simp
next
  case (Suc i)
  then have lt: "i < ms_n ms" by simp
  then have "take (Suc i) (ms_ix ms) = take i (ms_ix ms) @ [ms_ix ms ! i]"
    using assms(2) by (simp add: take_Suc_conv_app_nth)
  then show ?case
    using Suc lt getMask_distinct [OF assms(1) lt assms(2)]
    by (simp add: toTheLeft_append mask_Suc_MASKBIT)
qed

text \<open>
  The claim C2 speaks of every FROM clause.  \<^verbatim>\<open>createMask\<close> does not test whether a
  cursor number is already present, and \<^verbatim>\<open>getMask\<close> answers with the first slot that
  holds the number.  For a FROM clause whose two entries carry the same cursor number 5
  the second entry has the mask 1, so \<open>M - 1 = 0\<close>, while the union of the masks to its
  left is 1; and \<open>M\<^sub>0 - 1\<close> is not a strict subset of \<open>M\<^sub>1 - 1\<close>, the two are equal.
\<close>

theorem cursor_mask_repeated_cursor_counterexample:
  "sqlite4WhereBegin_masks False [5, 5] = Inr \<lparr>ms_n = 2, ms_ix = [5, 5] @ replicate 62 0\<rparr>
 \<and> getMask \<lparr>ms_n = 2, ms_ix = [5, 5] @ replicate 62 0\<rparr> ([5, 5] ! 1) - 1 = 0
 \<and> toTheLeft \<lparr>ms_n = 2, ms_ix = [5, 5] @ replicate 62 0\<rparr> (take 1 [5, 5]) 0 = 1
 \<and> getMask \<lparr>ms_n = 2, ms_ix = [5, 5] @ replicate 62 0\<rparr> ([5, 5] ! 0) - 1
     = getMask \<lparr>ms_n = 2, ms_ix = [5, 5] @ replicate 62 0\<rparr> ([5, 5] ! 1) - 1"
proof -
  have ms: "sqlite4WhereBegin_masks False [5, 5]
      = Inr \<lparr>ms_n = 2, ms_ix = [5, 5] @ replicate 62 0\<rparr>"
    by (simp add: sqlite4WhereBegin_masks_def createMask_def initMaskSet_def zeroMaskSet_def
        BMS_def numeral_eq_Suc)
  have g: "getMask \<lparr>ms_n = 2, ms_ix = [5, 5] @ replicate 62 0\<rparr> 5 = 1"
    by (simp add: getMask_def getMask_loop.simps MASKBIT_def)
  show ?thesis
    using ms g by simp
qed

text \<open>
  C2, as amended: the claim holds for a FROM clause whose entries carry pairwise different
  cursor numbers.  After \<^verbatim>\<open>sqlite4WhereBegin\<close> has assigned the bitmasks from left to
  right, the mask \<open>M\<close> of every entry satisfies that \<open>M - 1\<close> is the union of the masks of
  the entries to its left, which is what the debugging block of the source asserts; and
  for positions \<open>i < j\<close> the set \<open>M\<^sub>i - 1\<close> is a strict subset of \<open>M\<^sub>j - 1\<close>.
\<close>

theorem cursor_mask_monotone:
  assumes "distinct pTabList"
      and "sqlite4WhereBegin_masks mallocFailed pTabList = Inr ms"
  shows "(\<forall>i < length pTabList.
            getMask ms (pTabList ! i) - 1 = toTheLeft ms (take i pTabList) 0)
       \<and> (\<forall>i j. i < j \<and> j < length pTabList \<longrightarrow>
            (getMask ms (pTabList ! i) - 1) AND (getMask ms (pTabList ! j) - 1)
              = getMask ms (pTabList ! i) - 1
          \<and> getMask ms (pTabList ! i) - 1 \<noteq> getMask ms (pTabList ! j) - 1)"
proof -
  from whereBegin_masks_Inr [OF assms(2)]
  have le: "length pTabList \<le> BMS" and n: "ms_n ms = length pTabList"
    and ix: "ms_ix ms = pTabList @ replicate (BMS - length pTabList) 0"
    by simp_all
  have tk: "take (ms_n ms) (ms_ix ms) = pTabList"
    using n ix by simp
  have d: "distinct (take (ms_n ms) (ms_ix ms))"
    using tk assms(1) by simp
  have len: "ms_n ms \<le> length (ms_ix ms)"
    using n ix by simp
  have nth: "\<And>i. i < length pTabList \<Longrightarrow> ms_ix ms ! i = pTabList ! i"
    using ix by (simp add: nth_append)
  have gm: "\<And>i. i < length pTabList \<Longrightarrow> getMask ms (pTabList ! i) = MASKBIT i"
    using getMask_distinct [OF d _ len] n nth by metis
  have tki: "\<And>i. i < length pTabList \<Longrightarrow> take i (ms_ix ms) = take i pTabList"
    using ix by simp
  have left: "\<And>i. i < length pTabList \<Longrightarrow> toTheLeft ms (take i pTabList) 0 = mask i"
    using toTheLeft_prefix [OF d len] n tki by (metis less_imp_le)
  show ?thesis
  proof (intro conjI allI impI)
    fix i assume "i < length pTabList"
    then show "getMask ms (pTabList ! i) - 1 = toTheLeft ms (take i pTabList) 0"
      using gm left by (simp add: MASKBIT_minus_1)
  next
    fix i j assume ij: "i < j \<and> j < length pTabList"
    then show "(getMask ms (pTabList ! i) - 1) AND (getMask ms (pTabList ! j) - 1)
              = getMask ms (pTabList ! i) - 1"
      using gm by (simp add: MASKBIT_minus_1 mask_and_le)
  next
    fix i j assume ij: "i < j \<and> j < length pTabList"
    then have "j \<le> 64" using le by (simp add: BMS_def)
    then show "getMask ms (pTabList ! i) - 1 \<noteq> getMask ms (pTabList ! j) - 1"
      using gm ij mask_neq [of i j] by (simp add: MASKBIT_minus_1)
  qed
qed

lemma getMask_loop_createMask:
  assumes "createMask ms c' = Some ms'"
  shows "getMask_loop ms c i \<noteq> 0 \<Longrightarrow> getMask_loop ms' c i = getMask_loop ms c i"
proof (induction "ms_n ms - i" arbitrary: i)
  case 0
  then have "getMask_loop ms c i = 0"
    by (subst getMask_loop.simps) simp
  with 0 show ?case by simp
next
  case (Suc d)
  then have lt: "i < ms_n ms" by simp
  have ms': "ms_n ms' = ms_n ms + 1" "ms_ix ms' = (ms_ix ms)[ms_n ms := c']"
    using assms by (auto simp: createMask_def split: if_splits)
  have same: "ms_ix ms' ! i = ms_ix ms ! i"
    using lt ms' by simp
  show ?case
  proof (cases "ms_ix ms ! i = c")
    case True
    then show ?thesis
      using lt ms' same by (simp add: getMask_loop.simps [of _ _ i])
  next
    case False
    then have nz: "getMask_loop ms c (i + 1) \<noteq> 0"
      using Suc.prems lt by (subst (asm) getMask_loop.simps) simp
    have "getMask_loop ms' c (i + 1) = getMask_loop ms c (i + 1)"
      using Suc.hyps(2) nz by (intro Suc.hyps(1)) simp_all
    then show ?thesis
      using False lt ms' same by (simp add: getMask_loop.simps [of _ _ i])
  qed
qed

text \<open>
  The claim C7 says that a second interning of a cursor consumes no further bit.
  \<^verbatim>\<open>createMask\<close> has no test for a cursor that is already present: after two calls
  with the cursor 5 two bits are taken.
\<close>

theorem createMask_not_idempotent_counterexample:
  "map_option ms_n (createMask_all (initMaskSet zeroMaskSet) [5]) = Some 1
 \<and> map_option ms_n (createMask_all (initMaskSet zeroMaskSet) [5, 5]) = Some 2"
  by (simp add: createMask_def initMaskSet_def zeroMaskSet_def BMS_def)

text \<open>
  C7, as amended.  Every successful \<^verbatim>\<open>createMask\<close> takes one more bit, also for a
  cursor that is already present; for such a cursor \<^verbatim>\<open>getMask\<close> keeps answering with
  the bit of its first slot.  When the FROM clause has more than \<^verbatim>\<open>BMS\<close> entries,
  \<^verbatim>\<open>sqlite4WhereBegin\<close> fails at its first test with the message
  "at most 64 tables in a join", before anything is allocated or planned.
\<close>

theorem createMask_consumes_bit_and_join_limit:
  "(\<forall>ms'. createMask ms c = Some ms' \<longrightarrow>
       ms_n ms' = ms_n ms + 1
     \<and> (getMask ms c \<noteq> 0 \<longrightarrow> getMask ms' c = getMask ms c))
 \<and> (BMS < length pTabList \<longrightarrow>
       sqlite4WhereBegin_masks mallocFailed pTabList
         = Inl (TooManyTables ''at most 64 tables in a join''))"
proof (intro conjI allI impI)
  fix ms' assume "createMask ms c = Some ms'"
  then show "ms_n ms' = ms_n ms + 1"
    by (auto simp: createMask_def split: if_splits)
next
  fix ms' assume "createMask ms c = Some ms'" "getMask ms c \<noteq> 0"
  then show "getMask ms' c = getMask ms c"
    unfolding getMask_def by (rule getMask_loop_createMask)
next
  assume "BMS < length pTabList"
  then show "sqlite4WhereBegin_masks mallocFailed pTabList
         = Inl (TooManyTables ''at most 64 tables in a join'')"
    by (simp add: sqlite4WhereBegin_masks_def)
qed

theorem createMask_consumes_bit_and_join_limit_witness:
  "createMask \<lparr>ms_n = 1, ms_ix = 5 # replicate 63 0\<rparr> 5
     = Some \<lparr>ms_n = 2, ms_ix = 5 # 5 # replicate 62 0\<rparr>
 \<and> getMask \<lparr>ms_n = 1, ms_ix = 5 # replicate 63 0\<rparr> 5 \<noteq> 0
 \<and> getMask \<lparr>ms_n = 2, ms_ix = 5 # 5 # replicate 62 0\<rparr> 5
     = getMask \<lparr>ms_n = 1, ms_ix = 5 # replicate 63 0\<rparr> 5
 \<and> BMS < length (replicate 65 (0::int))
 \<and> sqlite4WhereBegin_masks False (replicate 65 0)
     = Inl (TooManyTables ''at most 64 tables in a join'')"
proof -
  have c: "createMask \<lparr>ms_n = 1, ms_ix = 5 # replicate 63 0\<rparr> 5
     = Some \<lparr>ms_n = 2, ms_ix = 5 # 5 # replicate 62 0\<rparr>"
    by (simp add: createMask_def numeral_eq_Suc)
  have g: "getMask \<lparr>ms_n = 1, ms_ix = 5 # replicate 63 0\<rparr> 5 \<noteq> 0"
    by (simp add: getMask_def getMask_loop.simps MASKBIT_def)
  have l: "BMS < length (replicate 65 (0::int))"
    by (simp add: BMS_def)
  show ?thesis
    using c g l
      createMask_consumes_bit_and_join_limit
        [of "\<lparr>ms_n = 1, ms_ix = 5 # replicate 63 0\<rparr>" 5 "replicate 65 0" False]
    by simp
qed

theorem cursor_mask_monotone_witness:
  "distinct [3, 8, 9 :: int]
 \<and> sqlite4WhereBegin_masks False [3, 8, 9] = Inr \<lparr>ms_n = 3, ms_ix = [3, 8, 9] @ replicate 61 0\<rparr>
 \<and> getMask \<lparr>ms_n = 3, ms_ix = [3, 8, 9] @ replicate 61 0\<rparr> 8 - 1
     = toTheLeft \<lparr>ms_n = 3, ms_ix = [3, 8, 9] @ replicate 61 0\<rparr> [3] 0
 \<and> (getMask \<lparr>ms_n = 3, ms_ix = [3, 8, 9] @ replicate 61 0\<rparr> 8 - 1)
     AND (getMask \<lparr>ms_n = 3, ms_ix = [3, 8, 9] @ replicate 61 0\<rparr> 9 - 1)
     = getMask \<lparr>ms_n = 3, ms_ix = [3, 8, 9] @ replicate 61 0\<rparr> 8 - 1
 \<and> getMask \<lparr>ms_n = 3, ms_ix = [3, 8, 9] @ replicate 61 0\<rparr> 8 - 1
     \<noteq> getMask \<lparr>ms_n = 3, ms_ix = [3, 8, 9] @ replicate 61 0\<rparr> 9 - 1"
proof -
  let ?ms = "\<lparr>ms_n = 3, ms_ix = [3, 8, 9] @ replicate 61 0\<rparr>"
  have d: "distinct [3, 8, 9 :: int]" by simp
  have ms: "sqlite4WhereBegin_masks False [3, 8, 9] = Inr ?ms"
    by (simp add: sqlite4WhereBegin_masks_def createMask_def initMaskSet_def zeroMaskSet_def
        BMS_def numeral_eq_Suc)
  from cursor_mask_monotone [OF d ms]
  have a: "\<forall>i < length [3, 8, 9 :: int].
            getMask ?ms ([3, 8, 9] ! i) - 1 = toTheLeft ?ms (take i [3, 8, 9]) 0"
    and b: "\<forall>i j. i < j \<and> j < length [3, 8, 9 :: int] \<longrightarrow>
            (getMask ?ms ([3, 8, 9] ! i) - 1) AND (getMask ?ms ([3, 8, 9] ! j) - 1)
              = getMask ?ms ([3, 8, 9] ! i) - 1
          \<and> getMask ?ms ([3, 8, 9] ! i) - 1 \<noteq> getMask ?ms ([3, 8, 9] ! j) - 1"
    by blast+
  from a [rule_format, of 1] have a1: "getMask ?ms 8 - 1 = toTheLeft ?ms [3] 0"
    by simp
  from b [rule_format, of 1 2]
  have b1: "(getMask ?ms 8 - 1) AND (getMask ?ms 9 - 1) = getMask ?ms 8 - 1"
    "getMask ?ms 8 - 1 \<noteq> getMask ?ms 9 - 1"
    by simp_all
  show ?thesis using d ms a1 b1 by blast
qed

section \<open>Properties of the insertion into the pool\<close>

lemma search_skip:
  assumes "\<not> spec_dominates p C" "\<not> spec_dominates C p"
  shows "whereLoopInsert_search C (p # rest) k = whereLoopInsert_search C rest (k + 1)"
  using assms by (auto simp: spec_dominates_def and.commute)

lemma search_hit:
  assumes "spec_dominates p C \<or> spec_dominates C p"
  shows "whereLoopInsert_search C (p # rest) k =
           (if spec_dominates p C \<and> \<not> spec_shorter_prefix p C then ins_noop
            else ins_overwrite k)"
  using assms by (auto simp: spec_dominates_def spec_shorter_prefix_def and.commute)

lemma search_none:
  "\<forall>E \<in> set pool. \<not> spec_dominates E C \<and> \<not> spec_dominates C E \<Longrightarrow>
   whereLoopInsert_search C pool k = ins_append"
proof (induction pool arbitrary: k)
  case Nil
  then show ?case by simp
next
  case (Cons p pool)
  have p: "\<not> spec_dominates p C" "\<not> spec_dominates C p"
    using Cons.prems by simp_all
  have "\<forall>E \<in> set pool. \<not> spec_dominates E C \<and> \<not> spec_dominates C E"
    using Cons.prems by simp
  from Cons.IH [OF this, of "k + 1"] show ?case
    by (simp only: search_skip [OF p])
qed

lemma search_first:
  assumes "i < length pool"
    and "\<forall>j<i. \<not> spec_dominates (pool ! j) C \<and> \<not> spec_dominates C (pool ! j)"
    and "spec_dominates (pool ! i) C \<or> spec_dominates C (pool ! i)"
  shows "whereLoopInsert_search C pool k =
           (if spec_dominates (pool ! i) C \<and> \<not> spec_shorter_prefix (pool ! i) C then ins_noop
            else ins_overwrite (k + i))"
  using assms
proof (induction pool arbitrary: i k)
  case Nil
  then show ?case by simp
next
  case (Cons p pool)
  show ?case
  proof (cases i)
    case 0
    then show ?thesis using Cons.prems(3) search_hit [of p C pool k] by simp
  next
    case (Suc i')
    have p: "\<not> spec_dominates p C" "\<not> spec_dominates C p"
      using Cons.prems(2) Suc by auto
    have a: "i' < length pool" using Cons.prems(1) Suc by simp
    have b: "\<forall>j<i'. \<not> spec_dominates (pool ! j) C \<and> \<not> spec_dominates C (pool ! j)"
      using Cons.prems(2) Suc by auto
    have c: "spec_dominates (pool ! i') C \<or> spec_dominates C (pool ! i')"
      using Cons.prems(3) Suc by simp
    show ?thesis
      using Cons.IH [OF a b c, of "k + 1"] Suc by (simp only: search_skip [OF p]) simp
  qed
qed

lemma store_fields:
  "prereq (fst (whereLoopInsert_store tnum True p C)) = prereq C
 \<and> iTab (fst (whereLoopInsert_store tnum True p C)) = iTab C
 \<and> iSortIdx (fst (whereLoopInsert_store tnum True p C)) = iSortIdx C
 \<and> rSetup (fst (whereLoopInsert_store tnum True p C)) = rSetup C
 \<and> rRun (fst (whereLoopInsert_store tnum True p C)) = rRun C
 \<and> nOut (fst (whereLoopInsert_store tnum True p C)) = nOut C
 \<and> wsFlags (fst (whereLoopInsert_store tnum True p C)) = wsFlags C
 \<and> nLTerm (fst (whereLoopInsert_store tnum True p C)) = nLTerm C"
  by (simp add: whereLoopInsert_store_def whereLoopXfer_def whereLoopResize_def Let_def
      split: prod.splits option.splits)

text \<open>
  C1, as amended.  In the ordinary mode (no \<^verbatim>\<open>pOrSet\<close>) and with every allocation
  succeeding, \<^verbatim>\<open>whereLoopInsert\<close> acts on the first loop \<open>E\<close> of the pool, in list
  order, that dominates the template \<open>C\<close> or is dominated by it (same \<^verbatim>\<open>iTab\<close> and
  \<^verbatim>\<open>iSortIdx\<close>, prerequisites a subset, setup and run cost no greater).  When the
  pool has no such loop, \<open>C\<close> is appended at its end.  When \<open>E\<close> dominates \<open>C\<close>, the pool
  stays as it is, unless \<open>E\<close> is a shorter prefix of the same index with the same
  prerequisites, in which case \<open>C\<close> overwrites \<open>E\<close>.  When \<open>E\<close> does not dominate \<open>C\<close> and
  is dominated by it, \<open>C\<close> overwrites \<open>E\<close>.  No other loop of the pool changes.  The
  stored loop has the table, sort index, prerequisites and costs of \<open>C\<close>.
\<close>

theorem whereLoopInsert_first_comparable:
  assumes "pOrSet pBuilder = None"
  shows "((\<forall>E \<in> set (pLoops pBuilder). \<not> spec_dominates E C \<and> \<not> spec_dominates C E) \<longrightarrow>
            pLoops (fst (snd (whereLoopInsert tnum True True raw pBuilder C)))
              = pLoops pBuilder @ [fst (whereLoopInsert_store tnum True (whereLoopInit raw) C)])
       \<and> (i < length (pLoops pBuilder)
            \<and> (\<forall>j<i. \<not> spec_dominates (pLoops pBuilder ! j) C
                    \<and> \<not> spec_dominates C (pLoops pBuilder ! j))
            \<and> (spec_dominates (pLoops pBuilder ! i) C \<or> spec_dominates C (pLoops pBuilder ! i))
            \<longrightarrow>
            pLoops (fst (snd (whereLoopInsert tnum True True raw pBuilder C)))
              = (if spec_dominates (pLoops pBuilder ! i) C
                    \<and> \<not> spec_shorter_prefix (pLoops pBuilder ! i) C
                 then pLoops pBuilder
                 else (pLoops pBuilder)
                        [i := fst (whereLoopInsert_store tnum True (pLoops pBuilder ! i) C)]))
       \<and> prereq (fst (whereLoopInsert_store tnum True p C)) = prereq C
       \<and> rSetup (fst (whereLoopInsert_store tnum True p C)) = rSetup C
       \<and> rRun (fst (whereLoopInsert_store tnum True p C)) = rRun C
       \<and> iTab (fst (whereLoopInsert_store tnum True p C)) = iTab C
       \<and> iSortIdx (fst (whereLoopInsert_store tnum True p C)) = iSortIdx C"
proof (intro conjI impI)
  assume "\<forall>E \<in> set (pLoops pBuilder). \<not> spec_dominates E C \<and> \<not> spec_dominates C E"
  from search_none [OF this, of 0]
  show "pLoops (fst (snd (whereLoopInsert tnum True True raw pBuilder C)))
              = pLoops pBuilder @ [fst (whereLoopInsert_store tnum True (whereLoopInit raw) C)]"
    using assms by (simp add: whereLoopInsert_def split: prod.splits)
next
  assume h: "i < length (pLoops pBuilder)
            \<and> (\<forall>j<i. \<not> spec_dominates (pLoops pBuilder ! j) C
                    \<and> \<not> spec_dominates C (pLoops pBuilder ! j))
            \<and> (spec_dominates (pLoops pBuilder ! i) C \<or> spec_dominates C (pLoops pBuilder ! i))"
  then have "whereLoopInsert_search C (pLoops pBuilder) 0 =
           (if spec_dominates (pLoops pBuilder ! i) C
              \<and> \<not> spec_shorter_prefix (pLoops pBuilder ! i) C then ins_noop
            else ins_overwrite i)"
    using search_first [of i "pLoops pBuilder" C 0] by simp
  then show "pLoops (fst (snd (whereLoopInsert tnum True True raw pBuilder C)))
              = (if spec_dominates (pLoops pBuilder ! i) C
                    \<and> \<not> spec_shorter_prefix (pLoops pBuilder ! i) C
                 then pLoops pBuilder
                 else (pLoops pBuilder)
                        [i := fst (whereLoopInsert_store tnum True (pLoops pBuilder ! i) C)])"
    using assms by (simp add: whereLoopInsert_def split: prod.splits)
qed (simp_all add: store_fields)

lemmas loop_eval = whereLoopInsert_def whereLoopInsert_store_def whereLoopXfer_def
  whereLoopResize_def whereLoopClearUnion_def whereLoopInit_def plainLoop_def tnum_two_def
  WHERE_INDEXED_def WHERE_VIRTUALTABLE_def WHERE_AUTO_INDEX_def SQLITE4_OK_def Let_def

text \<open>
  The claim C1 says that every loop of the pool that the template weakly dominates is
  overwritten.  Starting from the empty pool, the insertion of two incomparable loops
  and then of a template that dominates both overwrites the first only: the second
  stays in the pool.
\<close>

theorem whereLoopInsert_dominated_kept_counterexample:
  "pLoops (insertAll tnum_two (plainLoop 0 0 0 0) \<lparr>pLoops = [], pOrSet = None\<rparr>
             [plainLoop 1 10 1 0x200, plainLoop 2 10 1 0x200, plainLoop 0 10 1 0x200])
     = [plainLoop 0 10 1 0x200, plainLoop 2 10 1 0x200]
 \<and> spec_dominates (plainLoop 0 10 1 0x200) (plainLoop 2 10 1 0x200)"
  by (simp add: loop_eval spec_dominates_def)

theorem whereLoopInsert_first_comparable_witness:
  "pOrSet \<lparr>pLoops = [plainLoop 1 10 1 0x200, plainLoop 2 10 1 0x200], pOrSet = None\<rparr> = None
 \<and> \<not> spec_dominates (plainLoop 1 10 1 0x200) (plainLoop 4 10 1 0x200)
 \<and> \<not> spec_dominates (plainLoop 4 10 1 0x200) (plainLoop 1 10 1 0x200)
 \<and> \<not> spec_dominates (plainLoop 2 10 1 0x200) (plainLoop 4 10 1 0x200)
 \<and> \<not> spec_dominates (plainLoop 4 10 1 0x200) (plainLoop 2 10 1 0x200)
 \<and> pLoops (fst (snd (whereLoopInsert tnum_two True True (plainLoop 0 0 0 0)
       \<lparr>pLoops = [plainLoop 1 10 1 0x200, plainLoop 2 10 1 0x200], pOrSet = None\<rparr>
       (plainLoop 4 10 1 0x200))))
     = [plainLoop 1 10 1 0x200, plainLoop 2 10 1 0x200, plainLoop 4 10 1 0x200]
 \<and> \<not> spec_dominates (plainLoop 1 10 1 0x200) (plainLoop 2 5 1 0x200)
 \<and> \<not> spec_dominates (plainLoop 2 5 1 0x200) (plainLoop 1 10 1 0x200)
 \<and> spec_dominates (plainLoop 2 5 1 0x200) (plainLoop 2 10 1 0x200)
 \<and> pLoops (fst (snd (whereLoopInsert tnum_two True True (plainLoop 0 0 0 0)
       \<lparr>pLoops = [plainLoop 1 10 1 0x200, plainLoop 2 10 1 0x200], pOrSet = None\<rparr>
       (plainLoop 2 5 1 0x200))))
     = [plainLoop 1 10 1 0x200, plainLoop 2 5 1 0x200]"
proof -
  let ?E1 = "plainLoop 1 10 1 0x200" and ?E2 = "plainLoop 2 10 1 0x200"
  let ?b2 = "\<lparr>pLoops = [?E1, ?E2], pOrSet = None\<rparr>"
  let ?raw = "plainLoop 0 0 0 0"
  have n2: "pOrSet ?b2 = None"
    by simp
  have inc: "\<not> spec_dominates ?E1 (plainLoop 4 10 1 0x200)"
    "\<not> spec_dominates (plainLoop 4 10 1 0x200) ?E1"
    "\<not> spec_dominates ?E2 (plainLoop 4 10 1 0x200)"
    "\<not> spec_dominates (plainLoop 4 10 1 0x200) ?E2"
    by (simp_all add: spec_dominates_def plainLoop_def)
  have skip: "\<not> spec_dominates ?E1 (plainLoop 2 5 1 0x200)"
    "\<not> spec_dominates (plainLoop 2 5 1 0x200) ?E1"
    by (simp_all add: spec_dominates_def plainLoop_def)
  have dom: "spec_dominates (plainLoop 2 5 1 0x200) ?E2"
    "\<not> spec_dominates ?E2 (plainLoop 2 5 1 0x200)"
    by (simp_all add: spec_dominates_def plainLoop_def)
  have st: "fst (whereLoopInsert_store tnum_two True (whereLoopInit ?raw) (plainLoop 4 10 1 0x200))
              = plainLoop 4 10 1 0x200"
    "fst (whereLoopInsert_store tnum_two True ?E2 (plainLoop 2 5 1 0x200)) = plainLoop 2 5 1 0x200"
    by (simp_all add: loop_eval)
  have a: "pLoops (fst (snd (whereLoopInsert tnum_two True True ?raw ?b2 (plainLoop 4 10 1 0x200))))
     = [?E1, ?E2, plainLoop 4 10 1 0x200]"
    using whereLoopInsert_first_comparable
            [OF n2, where C = "plainLoop 4 10 1 0x200" and tnum = tnum_two and raw = ?raw] inc st
    by simp
  have b: "pLoops (fst (snd (whereLoopInsert tnum_two True True ?raw ?b2 (plainLoop 2 5 1 0x200))))
     = [?E1, plainLoop 2 5 1 0x200]"
    using whereLoopInsert_first_comparable
            [OF n2, where i = 1 and C = "plainLoop 2 5 1 0x200" and tnum = tnum_two and raw = ?raw]
      skip dom st
    by simp
  show ?thesis
    using n2 inc skip dom(1) a b by blast
qed

section \<open>Properties of the join-order solver\<close>

lemma solver_find_le: "solver_find aTo m v \<le> length aTo"
  by (induction aTo) auto

lemma solver_find_hit:
  "solver_find aTo m v < length aTo \<Longrightarrow>
   maskLoop (aTo ! solver_find aTo m v) = m \<and> isOrderedValid (aTo ! solver_find aTo m v) = v"
  by (induction aTo) (auto split: if_splits)

lemma solver_find_miss:
  "solver_find aTo m v \<ge> length aTo \<Longrightarrow> \<forall>p \<in> set aTo. \<not> (maskLoop p = m \<and> isOrderedValid p = v)"
  by (induction aTo) (auto split: if_splits)

lemma solver_find_none:
  "\<forall>p \<in> set aTo. solver_key p \<noteq> (m, v) \<Longrightarrow> solver_find aTo m v = length aTo"
  by (induction aTo) (auto simp: solver_key_def)

lemma solver_find_first:
  "jj < length aTo \<Longrightarrow> solver_key (aTo ! jj) = (m, v) \<Longrightarrow>
   \<forall>k<jj. solver_key (aTo ! k) \<noteq> (m, v) \<Longrightarrow> solver_find aTo m v = jj"
proof (induction aTo arbitrary: jj)
  case Nil
  then show ?case by simp
next
  case (Cons p aTo)
  show ?case
  proof (cases jj)
    case 0
    then show ?thesis using Cons.prems by (simp add: solver_key_def)
  next
    case (Suc j)
    have "solver_key p \<noteq> (m, v)" using Cons.prems(3) Suc by auto
    moreover have "solver_find aTo m v = j"
      using Cons.prems Suc by (intro Cons.IH) auto
    ultimately show ?thesis using Suc by (auto simp: solver_key_def)
  qed
qed

lemma solver_max_Max: "solver_max xs m = Max (insert m (rCost ` set xs))"
proof (induction xs arbitrary: m)
  case Nil
  then show ?case by simp
next
  case (Cons p xs)
  let ?S = "rCost ` set xs"
  have f: "finite ?S" by simp
  have m: "(if rCost p > m then rCost p else m) = max m (rCost p)"
    by (auto simp: max_def)
  have "solver_max (p # xs) m = solver_max xs (max m (rCost p))"
    by (simp only: solver_max.simps m)
  then have "solver_max (p # xs) m = Max (insert (max m (rCost p)) ?S)"
    using Cons [of "max m (rCost p)"] by simp
  also have "\<dots> = max (max m (rCost p)) (Max (insert (rCost p) ?S))"
  proof (cases "?S = {}")
    case True
    then show ?thesis by simp
  next
    case False
    then show ?thesis using f by (simp add: max.assoc max.left_commute)
  qed
  also have "\<dots> = max m (Max (insert (rCost p) ?S))"
  proof -
    have "rCost p \<le> Max (insert (rCost p) ?S)" using f by simp
    then show ?thesis by (simp add: max.assoc max_absorb2)
  qed
  also have "\<dots> = Max (insert m (insert (rCost p) ?S))"
    using f by simp
  finally show ?case by simp
qed

lemma solver_mxCost_full:
  assumes "length aTo = mxChoice" "0 < mxChoice"
  shows "solver_mxCost mxChoice aTo mxCost = Max (rCost ` set aTo)"
proof -
  obtain p rest where aTo: "aTo = p # rest"
    using assms by (cases aTo) auto
  show ?thesis
    using assms by (simp add: solver_mxCost_def aTo solver_max_Max)
qed

lemma solver_worst_Max:
  assumes "jj < length aTo" "mxCost = Max (rCost ` set aTo)"
    and "\<exists>k \<le> jj. rCost (aTo ! k) = mxCost"
  shows "\<exists>w \<le> jj. solver_worst aTo mxCost jj = Some w \<and> rCost (aTo ! w) = mxCost"
  using assms(1,3)
proof (induction jj)
  case 0
  then show ?case by auto
next
  case (Suc jj)
  show ?case
  proof (cases "rCost (aTo ! Suc jj) < mxCost")
    case True
    then have "\<exists>k \<le> jj. rCost (aTo ! k) = mxCost"
      using Suc.prems(2) by (metis le_SucE less_irrefl)
    then obtain w where "w \<le> jj" "solver_worst aTo mxCost jj = Some w" "rCost (aTo ! w) = mxCost"
      using Suc.IH Suc.prems(1) by auto
    then show ?thesis using True by auto
  next
    case False
    have "rCost (aTo ! Suc jj) \<le> mxCost"
      using assms(2) Suc.prems(1) by simp
    then show ?thesis using False by auto
  qed
qed

lemma distinct_map_update:
  assumes "distinct (map f xs)" "f y \<notin> f ` set xs"
  shows "distinct (map f (xs[w := y]))"
proof (cases "w < length xs")
  case False
  then have "xs[w := y] = xs" by (simp add: list_update_beyond)
  then show ?thesis using assms by simp
next
  case True
  have "map f (xs[w := y]) = (map f xs)[w := f y]"
    by (simp add: map_update)
  moreover have "distinct ((map f xs)[w := f y])"
    using assms distinct_list_update [of "map f xs" "f y" w] by auto
  ultimately show ?thesis by simp
qed

lemma distinct_map_update_same:
  assumes "distinct (map f xs)" "w < length xs" "f y = f (xs ! w)"
  shows "distinct (map f (xs[w := y]))"
proof -
  have "map f (xs[w := y]) = map f xs"
    using assms by (simp add: map_update list_update_same_conv)
  then show ?thesis using assms by simp
qed


lemma solver_merge_absent:
  assumes inv: "solver_inv mxChoice (aTo, mxCost)" and pos: "0 < mxChoice"
    and none: "\<forall>p \<in> set aTo. solver_key p \<noteq> solver_key T"
  shows "\<exists>aTo' mxCost'. solver_merge mxChoice T (aTo, mxCost) = Some (aTo', mxCost')
           \<and> solver_inv mxChoice (aTo', mxCost')
           \<and> (length aTo < mxChoice \<longrightarrow> aTo' = aTo @ [T])
           \<and> (length aTo = mxChoice \<longrightarrow>
                (if rCost T < mxCost
                 then \<exists>w<length aTo. rCost (aTo ! w) = mxCost \<and> aTo' = aTo[w := T]
                 else aTo' = aTo))"
proof -
  have len: "length aTo \<le> mxChoice" and d: "distinct (map solver_key aTo)"
    and mx: "length aTo = mxChoice \<Longrightarrow> mxCost = Max (rCost ` set aTo)"
    using inv by (simp_all add: solver_inv_def)
  have find: "solver_find aTo (maskLoop T) (isOrderedValid T) = length aTo"
    using none by (intro solver_find_none) (simp add: solver_key_def)
  have notin: "solver_key T \<notin> solver_key ` set aTo"
    using none by auto
  show ?thesis
  proof (cases "length aTo < mxChoice")
    case True
    have m: "solver_merge mxChoice T (aTo, mxCost)
               = Some (aTo @ [T], solver_mxCost mxChoice (aTo @ [T]) mxCost)"
      using True find by (simp add: solver_merge_def Let_def)
    have "solver_inv mxChoice (aTo @ [T], solver_mxCost mxChoice (aTo @ [T]) mxCost)"
      using True d notin pos solver_mxCost_full [of "aTo @ [T]" mxChoice mxCost]
      by (simp add: solver_inv_def)
    then show ?thesis using m True by simp
  next
    case False
    then have full: "length aTo = mxChoice" using len by simp
    have mxv: "mxCost = Max (rCost ` set aTo)" using mx full by simp
    show ?thesis
    proof (cases "rCost T < mxCost")
      case False
      then have "solver_merge mxChoice T (aTo, mxCost) = Some (aTo, mxCost)"
        using full find by (simp add: solver_merge_def Let_def not_less)
      then show ?thesis using inv full False by simp
    next
      case True
      have ne: "aTo \<noteq> []" using full pos by auto
      then have "Max (rCost ` set aTo) \<in> rCost ` set aTo"
        by (intro Max_in) simp_all
      then obtain k where k: "k < length aTo" "rCost (aTo ! k) = mxCost"
        using mxv by (auto simp: in_set_conv_nth)
      have last: "length aTo - 1 < length aTo" using ne by simp
      have "\<exists>k \<le> length aTo - 1. rCost (aTo ! k) = mxCost"
        using k by (intro exI [of _ k]) auto
      from solver_worst_Max [OF last mxv this]
      obtain w where w: "w \<le> length aTo - 1" "solver_worst aTo mxCost (length aTo - 1) = Some w"
        "rCost (aTo ! w) = mxCost"
        by auto
      have wl: "w < length aTo" using w(1) ne by (cases aTo) auto
      have nle: "\<not> mxCost \<le> rCost T"
        using True by (simp add: not_le)
      have m: "solver_merge mxChoice T (aTo, mxCost)
                 = Some (aTo[w := T], solver_mxCost mxChoice (aTo[w := T]) mxCost)"
        using nle full find w(2) by (simp add: solver_merge_def Let_def)
      have "solver_inv mxChoice (aTo[w := T], solver_mxCost mxChoice (aTo[w := T]) mxCost)"
        using full pos distinct_map_update [OF d notin, of w]
          solver_mxCost_full [of "aTo[w := T]" mxChoice mxCost]
        by (simp add: solver_inv_def)
      then show ?thesis using m True full w(3) wl by auto
    qed
  qed
qed

lemma solver_merge_present:
  assumes inv: "solver_inv mxChoice (aTo, mxCost)" and pos: "0 < mxChoice"
    and jj: "jj < length aTo" "solver_key (aTo ! jj) = solver_key T"
  shows "\<exists>aTo' mxCost'. solver_merge mxChoice T (aTo, mxCost) = Some (aTo', mxCost')
           \<and> solver_inv mxChoice (aTo', mxCost')
           \<and> aTo' = (if rCost T < rCost (aTo ! jj) then aTo[jj := T] else aTo)"
proof -
  have len: "length aTo \<le> mxChoice" and d: "distinct (map solver_key aTo)"
    using inv by (simp_all add: solver_inv_def)
  have first: "\<forall>k<jj. solver_key (aTo ! k) \<noteq> solver_key T"
  proof (intro allI impI)
    fix k assume k: "k < jj"
    then have "map solver_key aTo ! k \<noteq> map solver_key aTo ! jj"
      using d jj(1) by (simp add: nth_eq_iff_index_eq del: nth_map)
    then show "solver_key (aTo ! k) \<noteq> solver_key T"
      using k jj by simp
  qed
  have find: "solver_find aTo (maskLoop T) (isOrderedValid T) = jj"
    using jj first by (intro solver_find_first) (simp_all add: solver_key_def)
  show ?thesis
  proof (cases "rCost T < rCost (aTo ! jj)")
    case False
    then have "solver_merge mxChoice T (aTo, mxCost) = Some (aTo, mxCost)"
      using find jj(1) by (simp add: solver_merge_def Let_def not_less)
    then show ?thesis using inv False by simp
  next
    case True
    have nle: "\<not> rCost (aTo ! jj) \<le> rCost T"
      using True by (simp add: not_le)
    have m: "solver_merge mxChoice T (aTo, mxCost)
               = Some (aTo[jj := T], solver_mxCost mxChoice (aTo[jj := T]) mxCost)"
      using find jj(1) nle by (simp add: solver_merge_def Let_def)
    have "solver_inv mxChoice (aTo[jj := T], solver_mxCost mxChoice (aTo[jj := T]) mxCost)"
      using len pos distinct_map_update_same [OF d jj(1), of T] jj(2)
        solver_mxCost_full [of "aTo[jj := T]" mxChoice mxCost]
      by (simp add: solver_inv_def)
    then show ?thesis using m True by simp
  qed
qed

text \<open>
  C4, as amended.  The width is 1 for one table, 5 for two and 10 for three or more.
  The bookkeeping of \<^verbatim>\<open>wherePathSolver\<close> starts from the empty set and every merge
  keeps its invariant, so at most \<^verbatim>\<open>mxChoice\<close> paths are retained.  A new path \<open>T\<close> is
  compared with the retained path that has the same \<^verbatim>\<open>maskLoop\<close> and the same
  \<^verbatim>\<open>isOrderedValid\<close> flag (the flag \<^verbatim>\<open>isOrdered\<close> is not compared, so a path that
  satisfies the ORDER BY and one that does not are the same here): \<open>T\<close> replaces it if
  and only if \<open>T\<close> costs less.  When no retained path has that key, \<open>T\<close> is appended
  while fewer than \<^verbatim>\<open>mxChoice\<close> paths are retained, and otherwise takes the place of a
  path of the largest retained cost if and only if \<open>T\<close> costs less than that.
\<close>

theorem solver_merge_policy:
  assumes inv: "solver_inv mxChoice (aTo, mxCost)" and pos: "0 < mxChoice"
  shows "solver_mxChoice 1 = 1 \<and> solver_mxChoice 2 = 5
       \<and> (3 \<le> unat nLoop \<longrightarrow> solver_mxChoice nLoop = 10)
       \<and> solver_inv (solver_mxChoice nLoop) ([], 0)
       \<and> (\<exists>aTo' mxCost'. solver_merge mxChoice T (aTo, mxCost) = Some (aTo', mxCost')
           \<and> solver_inv mxChoice (aTo', mxCost')
           \<and> (\<forall>jj<length aTo. solver_key (aTo ! jj) = solver_key T \<longrightarrow>
                 aTo' = (if rCost T < rCost (aTo ! jj) then aTo[jj := T] else aTo))
           \<and> ((\<forall>p \<in> set aTo. solver_key p \<noteq> solver_key T) \<and> length aTo < mxChoice \<longrightarrow>
                 aTo' = aTo @ [T])
           \<and> ((\<forall>p \<in> set aTo. solver_key p \<noteq> solver_key T) \<and> length aTo = mxChoice \<longrightarrow>
                 (if rCost T < mxCost
                  then \<exists>w<length aTo. rCost (aTo ! w) = mxCost \<and> aTo' = aTo[w := T]
                  else aTo' = aTo)))"
proof -
  have a: "solver_mxChoice 1 = 1 \<and> solver_mxChoice 2 = 5"
    by (simp add: solver_mxChoice_def)
  have b: "3 \<le> unat nLoop \<longrightarrow> solver_mxChoice nLoop = 10"
    by (auto simp: solver_mxChoice_def)
  have c: "solver_inv (solver_mxChoice nLoop) ([], 0)"
    by (simp add: solver_inv_def solver_mxChoice_def)
  have m: "\<exists>aTo' mxCost'. solver_merge mxChoice T (aTo, mxCost) = Some (aTo', mxCost')
           \<and> solver_inv mxChoice (aTo', mxCost')
           \<and> (\<forall>jj<length aTo. solver_key (aTo ! jj) = solver_key T \<longrightarrow>
                 aTo' = (if rCost T < rCost (aTo ! jj) then aTo[jj := T] else aTo))
           \<and> ((\<forall>p \<in> set aTo. solver_key p \<noteq> solver_key T) \<and> length aTo < mxChoice \<longrightarrow>
                 aTo' = aTo @ [T])
           \<and> ((\<forall>p \<in> set aTo. solver_key p \<noteq> solver_key T) \<and> length aTo = mxChoice \<longrightarrow>
                 (if rCost T < mxCost
                  then \<exists>w<length aTo. rCost (aTo ! w) = mxCost \<and> aTo' = aTo[w := T]
                  else aTo' = aTo))"
  proof (cases "\<forall>p \<in> set aTo. solver_key p \<noteq> solver_key T")
    case True
    from solver_merge_absent [OF inv pos True]
    obtain aTo' mxCost' where r: "solver_merge mxChoice T (aTo, mxCost) = Some (aTo', mxCost')"
      "solver_inv mxChoice (aTo', mxCost')"
      "length aTo < mxChoice \<longrightarrow> aTo' = aTo @ [T]"
      "length aTo = mxChoice \<longrightarrow>
                (if rCost T < mxCost
                 then \<exists>w<length aTo. rCost (aTo ! w) = mxCost \<and> aTo' = aTo[w := T]
                 else aTo' = aTo)"
      by blast
    have "\<forall>jj<length aTo. solver_key (aTo ! jj) \<noteq> solver_key T"
      using True by simp
    then show ?thesis using r by blast
  next
    case False
    then obtain j where j: "j < length aTo" "solver_key (aTo ! j) = solver_key T"
      by (auto simp: in_set_conv_nth)
    from solver_merge_present [OF inv pos j]
    obtain aTo' mxCost' where r: "solver_merge mxChoice T (aTo, mxCost) = Some (aTo', mxCost')"
      "solver_inv mxChoice (aTo', mxCost')"
      by blast
    have "\<forall>jj<length aTo. solver_key (aTo ! jj) = solver_key T \<longrightarrow>
                 aTo' = (if rCost T < rCost (aTo ! jj) then aTo[jj := T] else aTo)"
    proof (intro allI impI)
      fix jj assume "jj < length aTo" "solver_key (aTo ! jj) = solver_key T"
      from solver_merge_present [OF inv pos this] r(1)
      show "aTo' = (if rCost T < rCost (aTo ! jj) then aTo[jj := T] else aTo)"
        by auto
    qed
    then show ?thesis using r False by blast
  qed
  show ?thesis using a b c m by blast
qed


text \<open>
  The claim C4 compares the ORDER BY status.  With room for five paths, a loop that
  delivers the order and a loop of the same table that does not give two candidates
  whose statuses differ; the second is not appended: one path is retained.
\<close>

theorem solver_merge_status_counterexample:
  "map_option spec_ob_status
     (solver_candidate obSat_bySortIdx 30 0 (solver_seed 0 False) (plainLoop 0 10 1 0x200))
     = Some NotSatisfied
 \<and> map_option (map spec_ob_status \<circ> fst)
     (solver_loops 5 obSat_bySortIdx 30 0 (solver_seed 0 False)
        [(plainLoop 0 10 1 0x200)\<lparr>iSortIdx := 1\<rparr>, plainLoop 0 10 1 0x200] ([], 0))
     = Some [Satisfied]"
  by (simp add: solver_candidate_def solver_seed_def plainLoop_def obSat_bySortIdx_def
      spec_ob_status_def solver_step_def solver_merge_def solver_mxCost_def whereCostAdd_def
      whereCostAdd_x_def Let_def)

theorem solver_merge_policy_witness:
  "length [\<lparr>maskLoop = 1, revLoop = 0, nRow = 0, rCost = 20, isOrdered = 0, isOrderedValid = 1, aLoop = []\<rparr>] \<le> (1::nat) \<and> distinct (map solver_key [\<lparr>maskLoop = 1, revLoop = 0, nRow = 0, rCost = 20, isOrdered = 0, isOrderedValid = 1, aLoop = []\<rparr>])
 \<and> (20::WhereCost) = Max (rCost ` set [\<lparr>maskLoop = 1, revLoop = 0, nRow = 0, rCost = 20, isOrdered = 0, isOrderedValid = 1, aLoop = []\<rparr>]) \<and> (0::nat) < 1
 \<and> solver_key \<lparr>maskLoop = 1, revLoop = 0, nRow = 0, rCost = 20, isOrdered = 0, isOrderedValid = 1, aLoop = []\<rparr> \<noteq> solver_key \<lparr>maskLoop = 2, revLoop = 0, nRow = 0, rCost = 10, isOrdered = 0, isOrderedValid = 1, aLoop = []\<rparr> \<and> rCost \<lparr>maskLoop = 2, revLoop = 0, nRow = 0, rCost = 10, isOrdered = 0, isOrderedValid = 1, aLoop = []\<rparr> < 20
 \<and> map_option fst (solver_merge 1 \<lparr>maskLoop = 2, revLoop = 0, nRow = 0, rCost = 10, isOrdered = 0, isOrderedValid = 1, aLoop = []\<rparr> ([\<lparr>maskLoop = 1, revLoop = 0, nRow = 0, rCost = 20, isOrdered = 0, isOrderedValid = 1, aLoop = []\<rparr>], 20)) = Some [\<lparr>maskLoop = 2, revLoop = 0, nRow = 0, rCost = 10, isOrdered = 0, isOrderedValid = 1, aLoop = []\<rparr>]
 \<and> solver_key \<lparr>maskLoop = 1, revLoop = 0, nRow = 0, rCost = 20, isOrdered = 0, isOrderedValid = 1, aLoop = []\<rparr> = solver_key \<lparr>maskLoop = 1, revLoop = 0, nRow = 0, rCost = 10, isOrdered = 1, isOrderedValid = 1, aLoop = []\<rparr> \<and> rCost \<lparr>maskLoop = 1, revLoop = 0, nRow = 0, rCost = 10, isOrdered = 1, isOrderedValid = 1, aLoop = []\<rparr> < rCost \<lparr>maskLoop = 1, revLoop = 0, nRow = 0, rCost = 20, isOrdered = 0, isOrderedValid = 1, aLoop = []\<rparr>
 \<and> map_option fst (solver_merge 1 \<lparr>maskLoop = 1, revLoop = 0, nRow = 0, rCost = 10, isOrdered = 1, isOrderedValid = 1, aLoop = []\<rparr> ([\<lparr>maskLoop = 1, revLoop = 0, nRow = 0, rCost = 20, isOrdered = 0, isOrderedValid = 1, aLoop = []\<rparr>], 20)) = Some [\<lparr>maskLoop = 1, revLoop = 0, nRow = 0, rCost = 10, isOrdered = 1, isOrderedValid = 1, aLoop = []\<rparr>]
 \<and> length [\<lparr>maskLoop = 1, revLoop = 0, nRow = 0, rCost = 20, isOrdered = 0, isOrderedValid = 1, aLoop = []\<rparr>] < (5::nat)
 \<and> map_option fst (solver_merge 5 \<lparr>maskLoop = 2, revLoop = 0, nRow = 0, rCost = 10, isOrdered = 0, isOrderedValid = 1, aLoop = []\<rparr> ([\<lparr>maskLoop = 1, revLoop = 0, nRow = 0, rCost = 20, isOrdered = 0, isOrderedValid = 1, aLoop = []\<rparr>], 0)) = Some [\<lparr>maskLoop = 1, revLoop = 0, nRow = 0, rCost = 20, isOrdered = 0, isOrderedValid = 1, aLoop = []\<rparr>, \<lparr>maskLoop = 2, revLoop = 0, nRow = 0, rCost = 10, isOrdered = 0, isOrderedValid = 1, aLoop = []\<rparr>]
 \<and> 3 \<le> unat (3 :: 8 word) \<and> solver_mxChoice 3 = 10"
proof -
  let ?P = "\<lparr>maskLoop = 1, revLoop = 0, nRow = 0, rCost = 20, isOrdered = 0, isOrderedValid = 1, aLoop = []\<rparr>"
  let ?T = "\<lparr>maskLoop = 2, revLoop = 0, nRow = 0, rCost = 10, isOrdered = 0, isOrderedValid = 1, aLoop = []\<rparr>"
  let ?T2 = "\<lparr>maskLoop = 1, revLoop = 0, nRow = 0, rCost = 10, isOrdered = 1, isOrderedValid = 1, aLoop = []\<rparr>"
  have inv1: "solver_inv 1 ([?P], 20)" and inv5: "solver_inv 5 ([?P], 0)"
    by (simp_all add: solver_inv_def)
  have hyp: "length [?P] \<le> (1::nat)" "distinct (map solver_key [?P])"
    "(20::WhereCost) = Max (rCost ` set [?P])" "(0::nat) < 1" "(0::nat) < 5"
    "solver_key ?P \<noteq> solver_key ?T" "rCost ?T < 20"
    "solver_key ?P = solver_key ?T2" "rCost ?T2 < rCost ?P" "length [?P] < (5::nat)"
    "3 \<le> unat (3 :: 8 word)"
    by (simp_all add: solver_key_def)
  from solver_merge_policy [OF inv1 hyp(4), of 3 ?T]
  have a: "map_option fst (solver_merge 1 ?T ([?P], 20)) = Some [?T]"
    using hyp(6,7) by auto
  from solver_merge_policy [OF inv1 hyp(4), of 3 ?T2]
  have b: "map_option fst (solver_merge 1 ?T2 ([?P], 20)) = Some [?T2]"
    using hyp(8,9) by auto
  from solver_merge_policy [OF inv5 hyp(5), of 3 ?T]
  have c: "map_option fst (solver_merge 5 ?T ([?P], 0)) = Some [?P, ?T]"
    using hyp(6) by auto
  from solver_merge_policy [OF inv1 hyp(4), of 3 ?T]
  have d: "solver_mxChoice 3 = 10"
    using hyp(11) by blast
  show ?thesis
    using hyp a b c d by blast
qed

section \<open>Properties of the scan through transitive equalities\<close>

lemma equivReach_mono: "m \<le> n \<Longrightarrow> set (equivReach pOrigWC start m) \<subseteq> set (equivReach pOrigWC start n)"
proof (induction n)
  case 0
  then show ?case by simp
next
  case (Suc n)
  show ?case
  proof (cases "m = Suc n")
    case True
    then show ?thesis by simp
  next
    case False
    then have "m \<le> n" using Suc.prems by simp
    then show ?thesis using Suc.IH by auto
  qed
qed

lemma equivReach_hop:
  assumes "c \<in> set (equivReach pOrigWC start n)" "q \<in> set (equivHops pOrigWC c)"
  shows "q \<in> set (equivReach pOrigWC start (Suc n))"
  using assms by auto

lemma equivHops_term:
  assumes "pWC \<in> set pOrigWC" "t \<in> set pWC"
    and "leftCursor t = fst c" "leftColumn t = snd c" "eOperator t AND WO_EQUIV \<noteq> 0"
    and "sqlite4ExprSkipCollate (ex_pRight (pExpr t)) = Some pX"
  shows "(ex_iTable pX, ex_iColumn pX) \<in> set (equivHops pOrigWC c)"
  unfolding equivHops_def using assms
  by (auto intro!: bexI [of _ pWC] bexI [of _ t])

lemma whereScan_addEquiv_frame:
  "iEquiv (whereScan_addEquiv s t) = iEquiv s
 \<and> sc_pWC (whereScan_addEquiv s t) = sc_pWC s
 \<and> sc_k (whereScan_addEquiv s t) = sc_k s
 \<and> nEquiv s \<le> nEquiv (whereScan_addEquiv s t)
 \<and> length (aEquiv (whereScan_addEquiv s t)) = length (aEquiv s)
 \<and> (\<forall>i < nEquiv s. aEquiv (whereScan_addEquiv s t) ! i = aEquiv s ! i)
 \<and> (22 \<le> nEquiv s \<longrightarrow> whereScan_addEquiv s t = s)"
  by (auto simp: whereScan_addEquiv_def Let_def split: option.splits)

lemma whereScan_addEquiv_inv:
  assumes inv: "scan_inv pOrigWC s" and le: "iEquiv s \<le> nEquiv s"
    and mem: "pWC \<in> set pOrigWC" "t \<in> set pWC"
    and left: "leftCursor t = aEquiv s ! (iEquiv s - 2)" "leftColumn t = aEquiv s ! (iEquiv s - 1)"
  shows "scan_inv pOrigWC (whereScan_addEquiv s t)"
proof (cases "whereScan_addEquiv s t = s")
  case True
  then show ?thesis using inv by simp
next
  case False
  then have eq: "eOperator t AND WO_EQUIV \<noteq> 0" and lt: "nEquiv s < 22"
    by (auto simp: whereScan_addEquiv_def split: if_splits)
  from False obtain pX where pX: "sqlite4ExprSkipCollate (ex_pRight (pExpr t)) = Some pX"
    using eq lt by (auto simp: whereScan_addEquiv_def split: option.splits)
  let ?n = "nEquiv s"
  let ?a' = "(aEquiv s)[?n := ex_iTable pX, ?n + 1 := ex_iColumn pX]"
  have s': "whereScan_addEquiv s t = s\<lparr>aEquiv := ?a', nEquiv := ?n + 2\<rparr>"
    using False eq lt pX by (auto simp: whereScan_addEquiv_def Let_def split: if_splits)
  have len: "length (aEquiv s) = 22" and ev: "even ?n" and n2: "2 \<le> ?n"
    and iev: "even (iEquiv s)" and i2: "2 \<le> iEquiv s"
    and reach: "\<And>i. 2 * i < ?n \<Longrightarrow>
           (aEquiv s ! (2 * i), aEquiv s ! Suc (2 * i))
             \<in> set (equivReach pOrigWC (aEquiv s ! 0, aEquiv s ! Suc 0) i)"
    using inv by (simp_all add: scan_inv_def)
  have n20: "?n \<le> 20" using ev lt by presburger
  obtain e' where e': "iEquiv s = 2 * e'" using iev by (auto elim: evenE)
  define e where "e = e' - 1"
  have e: "iEquiv s = 2 * e + 2" using e' i2 by (simp add: e_def)
  obtain m where m: "?n = 2 * m" using ev by (auto elim: evenE)
  have em: "e + 1 \<le> m" using le e m by simp
  have pe: "(aEquiv s ! (2 * e), aEquiv s ! Suc (2 * e))
             \<in> set (equivReach pOrigWC (aEquiv s ! 0, aEquiv s ! Suc 0) e)"
    using reach [of e] em m by simp
  have hop: "(ex_iTable pX, ex_iColumn pX)
             \<in> set (equivHops pOrigWC (aEquiv s ! (2 * e), aEquiv s ! Suc (2 * e)))"
    using equivHops_term [OF mem _ _ eq pX, of "(aEquiv s ! (2 * e), aEquiv s ! Suc (2 * e))"]
      left e by simp
  have new: "(ex_iTable pX, ex_iColumn pX)
             \<in> set (equivReach pOrigWC (aEquiv s ! 0, aEquiv s ! Suc 0) m)"
  proof -
    have h1: "(ex_iTable pX, ex_iColumn pX)
             \<in> set (equivReach pOrigWC (aEquiv s ! 0, aEquiv s ! Suc 0) (Suc e))"
      by (rule equivReach_hop [OF pe hop])
    have "Suc e \<le> m" using em by simp
    from equivReach_mono [OF this, of pOrigWC "(aEquiv s ! 0, aEquiv s ! Suc 0)"] h1
    show ?thesis by blast
  qed
  have old: "\<And>i. i < ?n \<Longrightarrow> ?a' ! i = aEquiv s ! i"
    by simp
  have "\<And>i. 2 * i < ?n + 2 \<Longrightarrow>
           (?a' ! (2 * i), ?a' ! Suc (2 * i))
             \<in> set (equivReach pOrigWC (?a' ! 0, ?a' ! Suc 0) i)"
  proof -
    fix i assume i: "2 * i < ?n + 2"
    have st: "?a' ! 0 = aEquiv s ! 0" "?a' ! Suc 0 = aEquiv s ! Suc 0"
      using n2 by simp_all
    show "(?a' ! (2 * i), ?a' ! Suc (2 * i)) \<in> set (equivReach pOrigWC (?a' ! 0, ?a' ! Suc 0) i)"
    proof (cases "2 * i < ?n")
      case True
      then have "2 * i + 1 < ?n" using ev by presburger
      then show ?thesis using True reach [OF True] st by simp
    next
      case False
      then have im: "i = m" using i m by simp
      have "?a' ! (2 * i) = ex_iTable pX" "?a' ! Suc (2 * i) = ex_iColumn pX"
        using im m len n20 by simp_all
      then show ?thesis using new im st by simp
    qed
  qed
  then show ?thesis
    using len ev n2 n20 iev i2 unfolding s' scan_inv_def by simp
qed


lemma scan_post_same:
  assumes "scan_post pOrigWC s2 r" "aEquiv s2 = aEquiv s" "nEquiv s2 = nEquiv s"
  shows "scan_post pOrigWC s r"
  using assms by (auto simp: scan_post_def split: option.splits)

lemma scan_post_addEquiv:
  assumes "scan_post pOrigWC (whereScan_addEquiv s t) r" "2 \<le> nEquiv s"
  shows "scan_post pOrigWC s r"
proof -
  have f: "aEquiv (whereScan_addEquiv s t) ! 0 = aEquiv s ! 0"
    "aEquiv (whereScan_addEquiv s t) ! Suc 0 = aEquiv s ! Suc 0"
    using whereScan_addEquiv_frame [of s t] assms(2) by simp_all
  have g: "nEquiv s = 22 \<Longrightarrow> whereScan_addEquiv s t = s"
    using whereScan_addEquiv_frame [of s t] by simp
  show ?thesis
    using assms(1) f g unfolding scan_post_def by (auto split: option.splits)
qed

lemma scan_inv_pair:
  assumes inv: "scan_inv pOrigWC s" and le: "iEquiv s \<le> nEquiv s"
  shows "(aEquiv s ! (iEquiv s - 2), aEquiv s ! (iEquiv s - 1))
           \<in> set (equivReach pOrigWC (aEquiv s ! 0, aEquiv s ! Suc 0) 10)"
proof -
  have iev: "even (iEquiv s)" and i2: "2 \<le> iEquiv s" and n22: "nEquiv s \<le> 22"
    and reach: "\<And>i. 2 * i < nEquiv s \<Longrightarrow>
           (aEquiv s ! (2 * i), aEquiv s ! Suc (2 * i))
             \<in> set (equivReach pOrigWC (aEquiv s ! 0, aEquiv s ! Suc 0) i)"
    using inv by (simp_all add: scan_inv_def)
  obtain e' where e': "iEquiv s = 2 * e'" using iev by (auto elim: evenE)
  define e where "e = e' - 1"
  have e: "iEquiv s = 2 * e + 2" using e' i2 by (simp add: e_def)
  have lt: "2 * e < nEquiv s" using e le by simp
  then have e10: "e \<le> 10" using n22 by simp
  have "(aEquiv s ! (2 * e), aEquiv s ! Suc (2 * e))
             \<in> set (equivReach pOrigWC (aEquiv s ! 0, aEquiv s ! Suc 0) e)"
    by (rule reach [OF lt])
  then have "(aEquiv s ! (2 * e), aEquiv s ! Suc (2 * e))
             \<in> set (equivReach pOrigWC (aEquiv s ! 0, aEquiv s ! Suc 0) 10)"
    using equivReach_mono [OF e10, of pOrigWC "(aEquiv s ! 0, aEquiv s ! Suc 0)"] by blast
  then show ?thesis using e by simp
qed

lemma whereScanNext_loop_post:
  "scan_inv pOrigWC pScan \<Longrightarrow>
   scan_post pOrigWC pScan (whereScanNext_loop affCollOk pOrigWC pScan k)"
proof (induction affCollOk pOrigWC pScan k rule: whereScanNext_loop.induct)
  case (1 affCollOk pOrigWC pScan k)
  note inv = "1.prems"
  have n2: "2 \<le> nEquiv pScan" using inv by (simp add: scan_inv_def)
  show ?case
  proof (cases "iEquiv pScan \<le> nEquiv pScan")
    case False
    then have "whereScanNext_loop affCollOk pOrigWC pScan k = (None, pScan)"
      by (subst whereScanNext_loop.simps) simp
    then show ?thesis using inv by (simp add: scan_post_def scan_inv_def)
  next
    case le: True
    show ?thesis
    proof (cases "sc_pWC pScan < length pOrigWC")
      case False
      let ?s = "pScan\<lparr>sc_pWC := 0, iEquiv := iEquiv pScan + 2\<rparr>"
      have r: "whereScanNext_loop affCollOk pOrigWC pScan k
                 = whereScanNext_loop affCollOk pOrigWC ?s 0"
        using le False by (subst whereScanNext_loop.simps) simp
      have "scan_inv pOrigWC ?s" using inv by (simp add: scan_inv_def)
      from "1.IH"(4) [OF le False this]
      show ?thesis unfolding r by (rule scan_post_same) simp_all
    next
      case wc: True
      let ?pWC = "pOrigWC ! sc_pWC pScan"
      show ?thesis
      proof (cases "k < length ?pWC")
        case False
        let ?s = "pScan\<lparr>sc_pWC := sc_pWC pScan + 1\<rparr>"
        have r: "whereScanNext_loop affCollOk pOrigWC pScan k
                   = whereScanNext_loop affCollOk pOrigWC ?s 0"
          using le wc False by (subst whereScanNext_loop.simps) simp
        have "scan_inv pOrigWC ?s" using inv by (simp add: scan_inv_def)
        from "1.IH"(3) [OF le wc refl False this]
        show ?thesis unfolding r by (rule scan_post_same) simp_all
      next
        case kl: True
        let ?t = "?pWC ! k"
        show ?thesis
        proof (cases "leftCursor ?t = aEquiv pScan ! (iEquiv pScan - 2)
                  \<and> leftColumn ?t = aEquiv pScan ! (iEquiv pScan - 1)")
          case False
          have r: "whereScanNext_loop affCollOk pOrigWC pScan k
                     = whereScanNext_loop affCollOk pOrigWC pScan (k + 1)"
            using le wc kl False by (subst whereScanNext_loop.simps) (auto simp: Let_def)
          from "1.IH"(2) [OF le wc refl kl refl False inv]
          show ?thesis unfolding r .
        next
          case match: True
          let ?s1 = "whereScan_addEquiv pScan ?t"
          have mem: "?pWC \<in> set pOrigWC" "?t \<in> set ?pWC"
            using wc kl by simp_all
          have inv1: "scan_inv pOrigWC ?s1"
            using whereScan_addEquiv_inv [OF inv le mem] match by simp
          show ?thesis
          proof (cases "whereScan_accepts affCollOk ?s1 ?t")
            case False
            have r: "whereScanNext_loop affCollOk pOrigWC pScan k
                       = whereScanNext_loop affCollOk pOrigWC ?s1 (k + 1)"
              using le wc kl match False
              by (subst whereScanNext_loop.simps) (simp add: Let_def)
            from "1.IH"(1) [OF le wc refl kl refl match refl False inv1]
            have "scan_post pOrigWC ?s1 (whereScanNext_loop affCollOk pOrigWC ?s1 (k + 1))" .
            then show ?thesis unfolding r using n2 by (rule scan_post_addEquiv)
          next
            case True
            have r: "whereScanNext_loop affCollOk pOrigWC pScan k
                       = (Some (sc_pWC ?s1, k), ?s1\<lparr>sc_k := k + 1\<rparr>)"
              using le wc kl match True
              by (subst whereScanNext_loop.simps) (simp add: Let_def)
            have fr: "sc_pWC ?s1 = sc_pWC pScan"
              "aEquiv ?s1 ! 0 = aEquiv pScan ! 0" "aEquiv ?s1 ! Suc 0 = aEquiv pScan ! Suc 0"
              "nEquiv pScan = 22 \<Longrightarrow> ?s1 = pScan"
              using whereScan_addEquiv_frame [of pScan ?t] n2 by simp_all
            have pair: "(leftCursor ?t, leftColumn ?t)
                 \<in> set (equivReach pOrigWC (aEquiv pScan ! 0, aEquiv pScan ! Suc 0) 10)"
              using scan_inv_pair [OF inv le] match by simp
            have "scan_inv pOrigWC (?s1\<lparr>sc_k := k + 1\<rparr>)"
              using inv1 by (simp add: scan_inv_def)
            then show ?thesis
              unfolding r scan_post_def using fr wc kl pair inv by auto
          qed
        qed
      qed
    qed
  qed
qed


text \<open>
  C8.  The scan behind \<^verbatim>\<open>findTerm\<close> is capped.  A scan started by
  \<^verbatim>\<open>whereScanInit\<close> and continued by any number of calls of \<^verbatim>\<open>whereScanNext\<close> keeps
  its invariant: \<^verbatim>\<open>aEquiv\<close> holds at most 11 pairs in its 22 slots, the starting pair
  and at most 10 others, each reached from the starting pair through a chain of
  equivalences.  Every term that is returned has a left side that is reached from the
  starting pair through at most 10 equalities marked \<^verbatim>\<open>WO_EQUIV\<close>.  Once the 22 slots
  are in use, \<^verbatim>\<open>aEquiv\<close> does not change any more: an equivalence found then is
  dropped.
\<close>

theorem whereScan_equiv_capped:
  assumes "length (aEquiv pScan0) = 22"
    and "idx = NoIndexColumn \<or> idx = IndexColumn aff zColl"
    and "scan_inv pOrigWC pScan"
  shows "scan_post pOrigWC
           (pScan0\<lparr>aEquiv := (aEquiv pScan0)[0 := iCur, 1 := iColumn], nEquiv := 2\<rparr>)
           (whereScanInit affCollOk pOrigWC pScan0 idx iCur iColumn opMask')
       \<and> scan_post pOrigWC pScan (whereScanNext affCollOk pOrigWC pScan)
       \<and> nEquiv (snd (whereScanInit affCollOk pOrigWC pScan0 idx iCur iColumn opMask')) div 2 \<le> 11
       \<and> nEquiv (snd (whereScanNext affCollOk pOrigWC pScan)) div 2 \<le> 11"
proof -
  let ?s0 = "pScan0\<lparr>sc_pWC := 0,
                   idxaff := (case idx of IndexColumn aff zColl \<Rightarrow> aff | _ \<Rightarrow> 0),
                   zCollName := (case idx of IndexColumn aff zColl \<Rightarrow> Some zColl | _ \<Rightarrow> None),
                   opMask := opMask', sc_k := 0,
                   aEquiv := (aEquiv pScan0)[0 := iCur, 1 := iColumn],
                   nEquiv := 2, iEquiv := 2\<rparr>"
  have i0: "whereScanInit affCollOk pOrigWC pScan0 idx iCur iColumn opMask'
              = whereScanNext affCollOk pOrigWC ?s0"
    using assms(2) by (auto simp: whereScanInit_def)
  have "\<And>i. 2 * i < (2::nat) \<Longrightarrow> i = 0"
    by simp
  then have inv0: "scan_inv pOrigWC ?s0"
    using assms(1) by (auto simp: scan_inv_def)
  have a: "scan_post pOrigWC ?s0 (whereScanNext affCollOk pOrigWC ?s0)"
    unfolding whereScanNext_def by (rule whereScanNext_loop_post [OF inv0])
  have b: "scan_post pOrigWC pScan (whereScanNext affCollOk pOrigWC pScan)"
    unfolding whereScanNext_def by (rule whereScanNext_loop_post [OF assms(3)])
  have a': "scan_post pOrigWC
           (pScan0\<lparr>aEquiv := (aEquiv pScan0)[0 := iCur, 1 := iColumn], nEquiv := 2\<rparr>)
           (whereScanInit affCollOk pOrigWC pScan0 idx iCur iColumn opMask')"
    unfolding i0 by (rule scan_post_same [OF a]) simp_all
  have c: "\<And>s r. scan_post pOrigWC s r \<Longrightarrow> nEquiv (snd r) div 2 \<le> 11"
    by (auto simp: scan_post_def scan_inv_def)
  show ?thesis
    using a' b c [OF a'] c [OF b] by blast
qed

theorem whereScan_equiv_capped_witness:
  "length (aEquiv rawScan) = 22
 \<and> whereScanInit affCollOk_always exampleChain rawScan NoIndexColumn 1 0 0x002
     = (Some (0, 0),
        rawScan\<lparr>opMask := 0x002, sc_k := 1, aEquiv := [1, 0, 2, 0] @ replicate 18 0,
                nEquiv := 4, iEquiv := 2\<rparr>)
 \<and> whereScanNext affCollOk_always exampleChain
       (rawScan\<lparr>opMask := 0x002, sc_k := 1, aEquiv := [1, 0, 2, 0] @ replicate 18 0,
                nEquiv := 4, iEquiv := 2\<rparr>)
     = (Some (0, 1),
        rawScan\<lparr>opMask := 0x002, sc_k := 2, aEquiv := [1, 0, 2, 0] @ replicate 18 0,
                nEquiv := 4, iEquiv := 4\<rparr>)
 \<and> (2, 0) \<in> set (equivReach exampleChain (1, 0) 10)"
proof -
  let ?s1 = "rawScan\<lparr>opMask := 0x002, sc_k := 1, aEquiv := [1, 0, 2, 0] @ replicate 18 0,
                nEquiv := 4, iEquiv := 2\<rparr>"
  have len: "length (aEquiv rawScan) = 22"
    by (simp add: rawScan_def)
  have ini: "whereScanInit affCollOk_always exampleChain rawScan NoIndexColumn 1 0 0x002
     = (Some (0, 0), ?s1)"
    by code_simp
  have nxt: "whereScanNext affCollOk_always exampleChain ?s1
     = (Some (0, 1),
        rawScan\<lparr>opMask := 0x002, sc_k := 2, aEquiv := [1, 0, 2, 0] @ replicate 18 0,
                nEquiv := 4, iEquiv := 4\<rparr>)"
    by code_simp
  have r1: "(2, 0) \<in> set (equivReach exampleChain (1, 0) 1)"
    by code_simp
  have two: "\<And>i. 2 * i < (4::nat) \<Longrightarrow> i = 0 \<or> i = 1"
    by presburger
  have r0: "(1, 0) \<in> set (equivReach exampleChain (1, 0) 0)"
    by simp
  have pairs: "\<forall>i. 2 * i < nEquiv ?s1 \<longrightarrow>
           (aEquiv ?s1 ! (2 * i), aEquiv ?s1 ! Suc (2 * i))
             \<in> set (equivReach exampleChain (aEquiv ?s1 ! 0, aEquiv ?s1 ! Suc 0) i)"
  proof (intro allI impI)
    fix i assume "2 * i < nEquiv ?s1"
    then have "i = 0 \<or> i = 1" using two by simp
    then show "(aEquiv ?s1 ! (2 * i), aEquiv ?s1 ! Suc (2 * i))
             \<in> set (equivReach exampleChain (aEquiv ?s1 ! 0, aEquiv ?s1 ! Suc 0) i)"
    proof
      assume "i = 0"
      then show ?thesis using r0 by simp
    next
      assume "i = 1"
      then show ?thesis using r1 by simp
    qed
  qed
  have inv1: "scan_inv exampleChain ?s1"
    unfolding scan_inv_def using pairs by (simp add: rawScan_def)
  have disj: "NoIndexColumn = NoIndexColumn \<or> NoIndexColumn = IndexColumn 0 []"
    by simp
  from whereScan_equiv_capped [OF len disj inv1, of 1 0 affCollOk_always 2]
  have post: "scan_post exampleChain ?s1 (whereScanNext affCollOk_always exampleChain ?s1)"
    by blast
  have mem: "(2, 0) \<in> set (equivReach exampleChain (1, 0) 10)"
    using post unfolding nxt scan_post_def
    by (simp add: exampleChain_def plainTerm_def rawScan_def)
  show ?thesis
    using len ini nxt mem by blast
qed

section \<open>Properties of the range selectivity\<close>

























section \<open>Properties of the analysis of a term\<close>

lemma skip_notAs: "ex_op e \<noteq> TK_COLLATE \<Longrightarrow> ex_op e \<noteq> TK_AS \<Longrightarrow> sqlite4ExprSkipCollate (Some e) = Some e"
  by (cases e) simp

lemma set_coll_sel [simp]:
  "ex_op (set_coll v e) = ex_op e" "ex_iTable (set_coll v e) = ex_iTable e"
  "ex_iColumn (set_coll v e) = ex_iColumn e" "ex_coll (set_coll v e) = Some v"
  "ex_aff (set_coll v e) = ex_aff e"
  by (cases e; simp)+

lemma usage_column: "ex_op e = TK_COLUMN \<Longrightarrow> exprTableUsage ms (Some e) = getMask ms (ex_iTable e)"
  by (cases e) simp

lemma updTerm_length [simp]: "length (wc_a (updTerm W i f)) = length (wc_a W)"
  by (simp add: updTerm_def)
lemma updTerm_op [simp]: "wc_op (updTerm W i f) = wc_op W"
  by (simp add: updTerm_def)
lemma updTerm_info [simp]: "wc_orInfo (updTerm W i f) = wc_orInfo W"
  by (simp add: updTerm_def)
lemma updTerm_nth_same [simp]: "i < length (wc_a W) \<Longrightarrow> wc_a (updTerm W i f) ! i = f (wc_a W ! i)"
  by (simp add: updTerm_def)
lemma updTerm_nth_other [simp]: "i \<noteq> j \<Longrightarrow> wc_a (updTerm W i f) ! j = wc_a W ! j"
  by (simp add: updTerm_def)
lemma updTerm_updTerm [simp]: "updTerm (updTerm W i f) i g = updTerm W i (g \<circ> f)"
  by (cases "i < length (wc_a W)") (simp_all add: updTerm_def list_update_beyond)

lemma like_none:
  "ex_op (pExpr (wc_a W ! i)) \<noteq> TK_FUNCTION \<Longrightarrow> exprAnalyze_like env an W i = Some W"
proof -
  assume "ex_op (pExpr (wc_a W ! i)) \<noteq> TK_FUNCTION"
  then have "isLikeOrGlob env (pExpr (wc_a W ! i)) = None"
    by (simp add: isLikeOrGlob_def sqlite4IsLikeFunction_def)
  then show ?thesis
    by (simp add: exprAnalyze_like_def Let_def)
qed

lemma match_none:
  "ex_op (pExpr (wc_a W ! i)) \<noteq> TK_FUNCTION \<Longrightarrow> exprAnalyze_match env W i = Some W"
  by (simp add: exprAnalyze_match_def isMatchOfColumn_def)

lemma match_none2:
  "\<not> (env_vtab env \<and> isMatchOfColumn env (pExpr (wc_a W ! i))) \<Longrightarrow>
   exprAnalyze_match env W i = Some W"
  by (auto simp: exprAnalyze_match_def Let_def)

lemma notnull_none:
  "ex_op (pExpr (wc_a W ! i)) \<noteq> TK_NOTNULL \<Longrightarrow> exprAnalyze_notnull env W i = Some W"
  by (simp add: exprAnalyze_notnull_def)

text \<open>For an allowed operator only the head and its block of \<^verbatim>\<open>exprAnalyze\<close> act.\<close>

lemma analyze_allowed:
  assumes "\<not> env_mallocFailed env" "i < length (wc_a W)" "allowedOp (ex_op (pExpr (wc_a W ! i)))"
    and "exprAnalyze_head env W i = (W1, pl, pa, er)"
    and "exprAnalyze_allowed env W1 i pl pa er = Some W2"
    and "i < length (wc_a W2)"
    and "allowedOp (ex_op (pExpr (wc_a W2 ! i)))"
  shows "exprAnalyze (Suc fuel) env W i =
     Some (updTerm W2 i (\<lambda>t. t\<lparr>prereqRight := prereqRight t OR er\<rparr>))"
proof -
  have nf: "ex_op (pExpr (wc_a W2 ! i)) \<noteq> TK_FUNCTION" "ex_op (pExpr (wc_a W2 ! i)) \<noteq> TK_NOTNULL"
    using assms(7) by (auto simp: allowedOp_def)
  show ?thesis
    using assms(1-5)
    by (simp add: exprAnalyze.simps like_none [OF nf(1)] match_none [OF nf(1)] notnull_none [OF nf(2)])
qed


lemma analyze_range_term:
  assumes nm: "\<not> env_mallocFailed env"
    and i: "i < length (wc_a W)"
    and e: "pExpr (wc_a W ! i) = sqlite4PExpr op' (Some col) (Some (strExpr s))"
    and op': "op' = TK_GE \<or> op' = TK_LT"
    and col: "ex_op col = TK_COLUMN"
  shows "\<exists>F. exprAnalyze (Suc fuel) env W i = Some (updTerm W i F)
     \<and> (\<forall>t. pExpr (F t) = pExpr t \<and> wtFlags (F t) = wtFlags t \<and> nChild (F t) = nChild t
          \<and> iParent (F t) = - 1
          \<and> leftCursor (F t) = ex_iTable col \<and> leftColumn (F t) = ex_iColumn col
          \<and> eOperator (F t) = operatorMask op')"
proof -
  have opm: "operatorMask op' AND WO_ALL = operatorMask op'"
    using op' by (auto simp: operatorMask_def WO_ALL_def WO_GE_def WO_LT_def)
  have al: "allowedOp op'" using op' by (auto simp: allowedOp_def)
  have nin: "op' \<noteq> TK_IN" "op' \<noteq> TK_ISNULL" "op' \<noteq> TK_COLUMN" "op' \<noteq> TK_FUNCTION" "op' \<noteq> TK_NOTNULL"
    using op' by auto
  obtain W1 pl pa er where head: "exprAnalyze_head env W i = (W1, pl, pa, er)"
    by (cases "exprAnalyze_head env W i") auto
  from head e nin obtain F1 where W1: "W1 = updTerm W i F1" and er: "er = 0"
    and pl: "pl = exprTableUsage (env_maskSet env) (Some col)"
    and F1: "\<And>t. pExpr (F1 t) = pExpr t \<and> wtFlags (F1 t) = wtFlags t \<and> nChild (F1 t) = nChild t
        \<and> iParent (F1 t) = - 1 \<and> prereqRight (F1 t) = 0"
    by (auto simp: exprAnalyze_head_def Let_def sqlite4PExpr_def strExpr_def)
  have e1: "pExpr (wc_a W1 ! i) = sqlite4PExpr op' (Some col) (Some (strExpr s))"
    using W1 i e F1 by simp
  have "\<exists>F2. exprAnalyze_allowed env W1 i pl pa er = Some (updTerm W1 i F2)
     \<and> (\<forall>t. pExpr (F2 t) = pExpr t \<and> wtFlags (F2 t) = wtFlags t \<and> nChild (F2 t) = nChild t
          \<and> iParent (F2 t) = iParent t
          \<and> leftCursor (F2 t) = ex_iTable col \<and> leftColumn (F2 t) = ex_iColumn col
          \<and> eOperator (F2 t) = operatorMask op')"
    using e1 col opm W1 i F1
    apply (simp add: exprAnalyze_allowed_def Let_def sqlite4PExpr_def strExpr_def skip_notAs)
    apply (rule exI, rule conjI, rule refl)
    apply simp
    done
  then obtain F2 where a: "exprAnalyze_allowed env W1 i pl pa er = Some (updTerm W1 i F2)"
    and F2: "\<And>t. pExpr (F2 t) = pExpr t \<and> wtFlags (F2 t) = wtFlags t \<and> nChild (F2 t) = nChild t
          \<and> iParent (F2 t) = iParent t
          \<and> leftCursor (F2 t) = ex_iTable col \<and> leftColumn (F2 t) = ex_iColumn col
          \<and> eOperator (F2 t) = operatorMask op'"
    by blast
  have r: "exprAnalyze (Suc fuel) env W i =
     Some (updTerm (updTerm W1 i F2) i (\<lambda>t. t\<lparr>prereqRight := prereqRight t OR er\<rparr>))"
    apply (rule analyze_allowed [OF nm i _ head a])
    using e al W1 i F1 F2 by (simp_all add: sqlite4PExpr_def)
  show ?thesis
    unfolding r W1
    apply (simp only: updTerm_updTerm)
    apply (rule exI, rule conjI, rule refl)
    using F1 F2 by simp
qed


lemma map_updTerm:
  "(\<And>t. g (f t) = g t) \<Longrightarrow> map g (wc_a (updTerm W i f)) = map g (wc_a W)"
  by (cases "i < length (wc_a W)")
     (simp_all add: updTerm_def map_update list_update_beyond list_update_same_conv)

lemma insert_eq:
  "ex_op p \<noteq> TK_COLLATE \<Longrightarrow> ex_op p \<noteq> TK_AS \<Longrightarrow>
   whereClauseInsert W p fl =
     Some (W\<lparr>wc_a := wc_a W @ [\<lparr>pExpr = p, iParent = - 1, leftCursor = 0, leftColumn = 0,
                eOperator = 0, wtFlags = fl, nChild = 0, prereqRight = 0, prereqAll = 0\<rparr>]\<rparr>,
           length (wc_a W))"
  by (simp add: whereClauseInsert_def skip_notAs)

lemma head_frame:
  assumes "exprAnalyze_head env W i = (W1, pl, pa, er)"
  shows "\<exists>F. W1 = updTerm W i F
     \<and> (\<forall>t. pExpr (F t) = pExpr t \<and> wtFlags (F t) = wtFlags t \<and> nChild (F t) = nChild t)"
  using assms
  apply (simp add: exprAnalyze_head_def Let_def)
  apply (rule exI, rule conjI, erule conjunct1 [THEN sym])
  apply simp
  done

lemma like_prefix_facts:
  assumes "prefix = takeWhile P z"
  shows "take (length (takeWhile P z)) z = prefix"
    and "length (takeWhile P z) \<noteq> 0 \<longleftrightarrow> prefix \<noteq> []"
    and "prefix \<noteq> [] \<Longrightarrow> z ! (length (takeWhile P z) - 1) = last prefix"
proof -
  show "take (length (takeWhile P z)) z = prefix"
    using assms takeWhile_eq_take [of P z] by simp
  show "length (takeWhile P z) \<noteq> 0 \<longleftrightarrow> prefix \<noteq> []"
    using assms by simp
  assume ne: "prefix \<noteq> []"
  then have "last prefix = prefix ! (length prefix - 1)"
    by (rule last_conv_nth)
  also have "\<dots> = z ! (length prefix - 1)"
    using ne assms by (simp add: takeWhile_nth)
  finally show "z ! (length (takeWhile P z) - 1) = last prefix"
    using assms by simp
qed


lemma like_block_none:
  assumes "isLikeOrGlob env (pExpr (wc_a W ! i)) = None"
  shows "exprAnalyze_like env an W i = Some W"
  using assms by (simp add: exprAnalyze_like_def Let_def)

lemma like_block_some:
  assumes op: "wc_op W = TK_AND" and i: "i < length (wc_a W)"
    and nm: "\<not> env_mallocFailed env"
    and lk: "isLikeOrGlob env (pExpr (wc_a W ! i)) = Some (strExpr prefix, ic, noCase)"
    and args: "ex_pList (pExpr (wc_a W ! i)) ! 1 = x"
    and col: "ex_op x = TK_COLUMN"
  shows "\<exists>W'. exprAnalyze_like env (exprAnalyze (Suc fuel) env) W i = Some W'
     \<and> wc_op W' = wc_op W
     \<and> map pExpr (wc_a W') = map pExpr (wc_a W) @ spec_like_bounds env noCase x prefix
     \<and> map wtFlags (wc_a W') = map wtFlags (wc_a W)
           @ [TERM_VIRTUAL OR TERM_DYNAMIC, TERM_VIRTUAL OR TERM_DYNAMIC]
     \<and> map eOperator (drop (length (wc_a W)) (wc_a W')) = [WO_GE, WO_LT]
     \<and> map leftCursor (drop (length (wc_a W)) (wc_a W')) = [ex_iTable x, ex_iTable x]
     \<and> map leftColumn (drop (length (wc_a W)) (wc_a W')) = [ex_iColumn x, ex_iColumn x]"
proof -
  define zColl where "zColl = (if noCase then ''NOCASE'' else ''BINARY'')"
  define lo where "lo = sqlite4PExpr TK_GE (Some (set_coll zColl x)) (Some (strExpr prefix))"
  define hi where "hi = sqlite4PExpr TK_LT (Some (set_coll zColl x))
      (Some (strExpr (butlast prefix @
           [(if noCase then env_upperToLower env (last prefix) else last prefix) + 1])))"
  define n where "n = length (wc_a W)"
  define t1 where "t1 = \<lparr>pExpr = lo, iParent = - 1, leftCursor = 0, leftColumn = 0,
                eOperator = 0, wtFlags = TERM_VIRTUAL OR TERM_DYNAMIC, nChild = 0,
                prereqRight = 0, prereqAll = 0\<rparr>"
  define t2 where "t2 = \<lparr>pExpr = hi, iParent = - 1, leftCursor = 0, leftColumn = 0,
                eOperator = 0, wtFlags = TERM_VIRTUAL OR TERM_DYNAMIC, nChild = 0,
                prereqRight = 0, prereqAll = 0\<rparr>"
  define W1 where "W1 = W\<lparr>wc_a := wc_a W @ [t1]\<rparr>"
  have bounds: "spec_like_bounds env noCase x prefix = [lo, hi]"
    by (simp add: spec_like_bounds_def lo_def hi_def zColl_def)
  have colx: "ex_op (set_coll zColl x) = TK_COLUMN"
    using col by simp
  have ins1: "whereClauseInsert W lo (TERM_VIRTUAL OR TERM_DYNAMIC) = Some (W1, n)"
    by (simp add: insert_eq lo_def sqlite4PExpr_def W1_def t1_def n_def)
  have "\<exists>F. exprAnalyze (Suc fuel) env W1 n = Some (updTerm W1 n F)
     \<and> (\<forall>t. pExpr (F t) = pExpr t \<and> wtFlags (F t) = wtFlags t \<and> nChild (F t) = nChild t
          \<and> iParent (F t) = - 1
          \<and> leftCursor (F t) = ex_iTable (set_coll zColl x)
          \<and> leftColumn (F t) = ex_iColumn (set_coll zColl x)
          \<and> eOperator (F t) = operatorMask TK_GE)"
    by (rule analyze_range_term [OF nm _ _ _ colx, where s = prefix])
       (simp_all add: W1_def n_def t1_def lo_def)
  then obtain F1 where an1: "exprAnalyze (Suc fuel) env W1 n = Some (updTerm W1 n F1)"
    and F1: "\<And>t. pExpr (F1 t) = pExpr t \<and> wtFlags (F1 t) = wtFlags t \<and> nChild (F1 t) = nChild t
          \<and> iParent (F1 t) = - 1
          \<and> leftCursor (F1 t) = ex_iTable x \<and> leftColumn (F1 t) = ex_iColumn x
          \<and> eOperator (F1 t) = WO_GE"
    by (auto simp: operatorMask_def)
  define W2 where "W2 = updTerm W1 n F1"
  define W3 where "W3 = W2\<lparr>wc_a := wc_a W2 @ [t2]\<rparr>"
  have len2: "length (wc_a W2) = Suc n"
    by (simp add: W2_def W1_def n_def)
  have ins2: "whereClauseInsert W2 hi (TERM_VIRTUAL OR TERM_DYNAMIC) = Some (W3, Suc n)"
    by (simp add: insert_eq hi_def sqlite4PExpr_def W3_def t2_def len2)
  have "\<exists>F. exprAnalyze (Suc fuel) env W3 (Suc n) = Some (updTerm W3 (Suc n) F)
     \<and> (\<forall>t. pExpr (F t) = pExpr t \<and> wtFlags (F t) = wtFlags t \<and> nChild (F t) = nChild t
          \<and> iParent (F t) = - 1
          \<and> leftCursor (F t) = ex_iTable (set_coll zColl x)
          \<and> leftColumn (F t) = ex_iColumn (set_coll zColl x)
          \<and> eOperator (F t) = operatorMask TK_LT)"
    by (rule analyze_range_term [OF nm _ _ _ colx, where s = "butlast prefix @
           [(if noCase then env_upperToLower env (last prefix) else last prefix) + 1]"])
       (simp_all add: W3_def len2 t2_def hi_def nth_append)
  then obtain F2 where an2: "exprAnalyze (Suc fuel) env W3 (Suc n) = Some (updTerm W3 (Suc n) F2)"
    and F2: "\<And>t. pExpr (F2 t) = pExpr t \<and> wtFlags (F2 t) = wtFlags t \<and> nChild (F2 t) = nChild t
          \<and> iParent (F2 t) = - 1
          \<and> leftCursor (F2 t) = ex_iTable x \<and> leftColumn (F2 t) = ex_iColumn x
          \<and> eOperator (F2 t) = WO_LT"
    by (auto simp: operatorMask_def)
  define W4 where "W4 = updTerm W3 (Suc n) F2"
  have a4: "wc_a W4 = wc_a W @ [F1 t1, F2 t2]"
    by (simp add: W4_def W3_def W2_def W1_def updTerm_def n_def nth_append list_update_append)
  have op4: "wc_op W4 = wc_op W"
    by (simp add: W4_def W3_def W2_def W1_def)
  define R where "R = (if (if noCase \<and> last prefix = 0x40 then False else ic) then
      updTerm (updTerm (updTerm W4 n (\<lambda>t. t\<lparr>iParent := int i\<rparr>)) (Suc n)
         (\<lambda>t. t\<lparr>iParent := int i\<rparr>)) i (\<lambda>t. t\<lparr>nChild := 2\<rparr>)
      else W4)"
  have res: "exprAnalyze_like env (exprAnalyze (Suc fuel) env) W i = Some R"
    using op lk args ins1 an1 ins2 an2
    unfolding lo_def hi_def zColl_def R_def W2_def [symmetric] W4_def [symmetric]
    by (cases noCase; simp add: exprAnalyze_like_def Let_def strExpr_def)
  have ni: "i < n" using i by (simp add: n_def)
  have Ra: "map pExpr (wc_a R) = map pExpr (wc_a W4)" "map wtFlags (wc_a R) = map wtFlags (wc_a W4)"
    "map eOperator (wc_a R) = map eOperator (wc_a W4)" "map leftCursor (wc_a R) = map leftCursor (wc_a W4)"
    "map leftColumn (wc_a R) = map leftColumn (wc_a W4)" "wc_op R = wc_op W4"
    by (simp_all add: R_def map_updTerm)
  have dr: "\<And>g. map g (drop (length (wc_a W)) (wc_a R)) = drop (length (wc_a W)) (map g (wc_a R))"
    by (simp add: drop_map)
  show ?thesis
    apply (rule exI [of _ R])
    apply (simp only: res dr Ra a4 op4 bounds)
    using F1 F2 apply (simp add: t1_def t2_def)
    done
qed


lemma isLikeOrGlob_eq:
  assumes fn: "ex_op e = TK_FUNCTION" and args: "ex_pList e = [pRight, pLeft]"
    and lk: "env_isLike env e = Some (noCase, wc0, wc1, wc2)"
    and col: "ex_op pLeft = TK_COLUMN" "ex_aff pLeft = SQLITE4_AFF_TEXT" "\<not> ex_isVirtual pLeft"
    and pat: "isLikeOrGlob_pattern env pRight = Some z"
    and pre: "prefix = takeWhile (\<lambda>c. c \<noteq> wc0 \<and> c \<noteq> wc1 \<and> c \<noteq> wc2) z"
  shows "isLikeOrGlob env e =
     (if prefix \<noteq> [] \<and> last prefix \<noteq> 0xFF
      then Some (strExpr prefix,
                 length prefix < length z \<and> z ! length prefix = wc0 \<and> Suc (length prefix) = length z,
                 noCase)
      else None)"
  using fn args lk col pat like_prefix_facts [OF pre]
  by (auto simp: isLikeOrGlob_def sqlite4IsLikeFunction_def Let_def pre [symmetric])

text \<open>
  C6, as amended.  Let the term \<open>idxTerm\<close> of an AND clause be the call \<open>e\<close> of a LIKE
  function with the pattern \<open>pRight\<close> and the left operand \<open>pLeft\<close>, a column with TEXT
  affinity of a table that is not virtual; let the pattern be a string literal or a
  variable bound to a text, \<open>z\<close>, and \<open>prefix\<close> the bytes of \<open>z\<close> before its first
  wildcard.  With two levels of calls the analysis returns.  If the prefix is not empty
  and its last byte is not \<^verbatim>\<open>0xFF\<close>, two terms are appended, marked virtual and
  dynamic: the column, with the collation \<^verbatim>\<open>NOCASE\<close> when the function ignores case
  and \<^verbatim>\<open>BINARY\<close> otherwise, is not below the prefix, and is below the prefix whose
  last byte \<open>c\<close> is replaced by \<open>c + 1\<close> when the function respects case, and by
  \<^verbatim>\<open>sqlite4UpperToLower[c] + 1\<close> when it ignores case.  Otherwise no term is appended,
  and the expression, the flags and the number of children of every term are as before.
\<close>

theorem exprAnalyze_like_rewrite:
  assumes nm: "\<not> env_mallocFailed env" and op: "wc_op pWC = TK_AND"
    and i: "idxTerm < length (wc_a pWC)"
    and e: "pExpr (wc_a pWC ! idxTerm) = e"
    and fn: "ex_op e = TK_FUNCTION" and args: "ex_pList e = [pRight, pLeft]"
    and lk: "env_isLike env e = Some (noCase, wc0, wc1, wc2)"
    and col: "ex_op pLeft = TK_COLUMN" "ex_aff pLeft = SQLITE4_AFF_TEXT" "\<not> ex_isVirtual pLeft"
    and pat: "isLikeOrGlob_pattern env pRight = Some z"
    and pre: "prefix = takeWhile (\<lambda>c. c \<noteq> wc0 \<and> c \<noteq> wc1 \<and> c \<noteq> wc2) z"
    and nomatch: "\<not> (env_vtab env \<and> isMatchOfColumn env e)"
  shows "\<exists>pWC'. exprAnalyze (Suc (Suc fuel)) env pWC idxTerm = Some pWC' \<and>
     (if prefix \<noteq> [] \<and> last prefix \<noteq> 0xFF then
        map pExpr (wc_a pWC') = map pExpr (wc_a pWC) @ spec_like_bounds env noCase pLeft prefix
        \<and> map wtFlags (wc_a pWC') = map wtFlags (wc_a pWC)
             @ [TERM_VIRTUAL OR TERM_DYNAMIC, TERM_VIRTUAL OR TERM_DYNAMIC]
        \<and> map eOperator (drop (length (wc_a pWC)) (wc_a pWC')) = [WO_GE, WO_LT]
        \<and> map leftCursor (drop (length (wc_a pWC)) (wc_a pWC')) = [ex_iTable pLeft, ex_iTable pLeft]
        \<and> map leftColumn (drop (length (wc_a pWC)) (wc_a pWC'))
             = [ex_iColumn pLeft, ex_iColumn pLeft]
      else
        map pExpr (wc_a pWC') = map pExpr (wc_a pWC)
        \<and> map wtFlags (wc_a pWC') = map wtFlags (wc_a pWC)
        \<and> map nChild (wc_a pWC') = map nChild (wc_a pWC))"
proof -
  obtain W1 pl pa er where head: "exprAnalyze_head env pWC idxTerm = (W1, pl, pa, er)"
    by (cases "exprAnalyze_head env pWC idxTerm") auto
  from head_frame [OF head] obtain F where W1: "W1 = updTerm pWC idxTerm F"
    and F: "\<And>t. pExpr (F t) = pExpr t \<and> wtFlags (F t) = wtFlags t \<and> nChild (F t) = nChild t"
    by blast
  have e1: "pExpr (wc_a W1 ! idxTerm) = e" and op1: "wc_op W1 = TK_AND"
    and i1: "idxTerm < length (wc_a W1)" and len1: "length (wc_a W1) = length (wc_a pWC)"
    using W1 F i e op by simp_all
  have m1: "map pExpr (wc_a W1) = map pExpr (wc_a pWC)" "map wtFlags (wc_a W1) = map wtFlags (wc_a pWC)"
    "map nChild (wc_a W1) = map nChild (wc_a pWC)"
    using F by (simp_all add: W1 map_updTerm)
  have nal: "\<not> allowedOp (ex_op e)" "ex_op e \<noteq> TK_BETWEEN" "ex_op e \<noteq> TK_OR" "ex_op e \<noteq> TK_NOTNULL"
    using fn by (simp_all add: allowedOp_def)
  note lg = isLikeOrGlob_eq [OF fn args lk col pat pre]
  have fin: "\<And>g W. (\<And>t f. g (prereqRight_update f t) = g t) \<Longrightarrow>
      map g (wc_a (updTerm W idxTerm (\<lambda>t. t\<lparr>prereqRight := prereqRight t OR er\<rparr>))) = map g (wc_a W)"
    by (rule map_updTerm) simp
  show ?thesis
  proof (cases "prefix \<noteq> [] \<and> last prefix \<noteq> 0xFF")
    case True
    then have lg1: "isLikeOrGlob env (pExpr (wc_a W1 ! idxTerm)) = Some (strExpr prefix,
                 length prefix < length z \<and> z ! length prefix = wc0 \<and> Suc (length prefix) = length z,
                 noCase)"
      using lg e1 by simp
    have x: "ex_pList (pExpr (wc_a W1 ! idxTerm)) ! 1 = pLeft"
      using e1 args by simp
    from like_block_some [OF op1 i1 nm lg1 x col(1), of fuel]
    obtain W' where all: "exprAnalyze_like env (exprAnalyze (Suc fuel) env) W1 idxTerm = Some W'
     \<and> wc_op W' = wc_op W1
     \<and> map pExpr (wc_a W') = map pExpr (wc_a W1) @ spec_like_bounds env noCase pLeft prefix
     \<and> map wtFlags (wc_a W') = map wtFlags (wc_a W1)
           @ [TERM_VIRTUAL OR TERM_DYNAMIC, TERM_VIRTUAL OR TERM_DYNAMIC]
     \<and> map eOperator (drop (length (wc_a W1)) (wc_a W')) = [WO_GE, WO_LT]
     \<and> map leftCursor (drop (length (wc_a W1)) (wc_a W')) = [ex_iTable pLeft, ex_iTable pLeft]
     \<and> map leftColumn (drop (length (wc_a W1)) (wc_a W')) = [ex_iColumn pLeft, ex_iColumn pLeft]" ..
    note lb = all [THEN conjunct1]
    note pe = all [THEN conjunct2, THEN conjunct2, THEN conjunct1]
    note fl = all [THEN conjunct2, THEN conjunct2, THEN conjunct2, THEN conjunct1]
    note eo = all [THEN conjunct2, THEN conjunct2, THEN conjunct2, THEN conjunct2, THEN conjunct1]
    note lc = all [THEN conjunct2, THEN conjunct2, THEN conjunct2, THEN conjunct2, THEN conjunct2,
        THEN conjunct1]
    note lcol = all [THEN conjunct2, THEN conjunct2, THEN conjunct2, THEN conjunct2, THEN conjunct2,
        THEN conjunct2]
    have "map pExpr (wc_a W') ! idxTerm = e"
      using pe m1 i e by (simp add: nth_append)
    moreover have "idxTerm < length (wc_a W')"
      using arg_cong [OF pe, of length] i len1 by simp
    ultimately have e': "pExpr (wc_a W' ! idxTerm) = e"
      by simp
    have mt: "exprAnalyze_match env W' idxTerm = Some W'"
      by (rule match_none2) (use nomatch in \<open>simp only: e' not_False_eq_True\<close>)
    have nn: "exprAnalyze_notnull env W' idxTerm = Some W'"
      using nal e' by (simp add: notnull_none)
    have res: "exprAnalyze (Suc (Suc fuel)) env pWC idxTerm =
        Some (updTerm W' idxTerm (\<lambda>t. t\<lparr>prereqRight := prereqRight t OR er\<rparr>))"
      using nm i head e nal lb mt nn by (simp add: exprAnalyze.simps)
    show ?thesis
      apply (rule exI, rule conjI, rule res)
      using True pe fl eo lc lcol m1 len1
      by (simp add: fin drop_map [symmetric] del: drop_map)
  next
    case False
    then have lg1: "isLikeOrGlob env (pExpr (wc_a W1 ! idxTerm)) = None"
      using lg e1 by simp
    have lb: "exprAnalyze_like env (exprAnalyze (Suc fuel) env) W1 idxTerm = Some W1"
      by (rule like_block_none [OF lg1])
    have mt: "exprAnalyze_match env W1 idxTerm = Some W1"
      by (rule match_none2) (use nomatch in \<open>simp only: e1 not_False_eq_True\<close>)
    have nn: "exprAnalyze_notnull env W1 idxTerm = Some W1"
      using nal e1 by (simp add: notnull_none)
    have res: "exprAnalyze (Suc (Suc fuel)) env pWC idxTerm =
        Some (updTerm W1 idxTerm (\<lambda>t. t\<lparr>prereqRight := prereqRight t OR er\<rparr>))"
      using nm i head e nal lb mt nn by (simp add: exprAnalyze.simps)
    show ?thesis
      apply (rule exI, rule conjI, rule res)
      using False m1 by (simp add: fin)
  qed
qed


text \<open>
  The theorem at \<^verbatim>\<open>x LIKE 'abc%'\<close>, case respected: the bounds are \<^verbatim>\<open>'abc'\<close> and
  \<^verbatim>\<open>'abd'\<close>.
\<close>

theorem exprAnalyze_like_rewrite_witness:
  "\<not> env_mallocFailed (likeEnv False)
   \<and> wc_op (andClause (likeCall [0x61, 0x62, 0x63, 0x25])) = TK_AND
   \<and> (0::nat) < length (wc_a (andClause (likeCall [0x61, 0x62, 0x63, 0x25])))
   \<and> ex_op (likeCall [0x61, 0x62, 0x63, 0x25]) = TK_FUNCTION
   \<and> ex_pList (likeCall [0x61, 0x62, 0x63, 0x25]) = [strExpr [0x61, 0x62, 0x63, 0x25], textColumn]
   \<and> env_isLike (likeEnv False) (likeCall [0x61, 0x62, 0x63, 0x25]) = Some (False, 0x25, 0x5f, 0)
   \<and> ex_op textColumn = TK_COLUMN \<and> ex_aff textColumn = SQLITE4_AFF_TEXT
   \<and> \<not> ex_isVirtual textColumn
   \<and> isLikeOrGlob_pattern (likeEnv False) (strExpr [0x61, 0x62, 0x63, 0x25])
       = Some [0x61, 0x62, 0x63, 0x25]
   \<and> \<not> isMatchOfColumn (likeEnv False) (likeCall [0x61, 0x62, 0x63, 0x25])
   \<and> map pExpr (wc_a (the (exprAnalyze 2 (likeEnv False)
          (andClause (likeCall [0x61, 0x62, 0x63, 0x25])) 0)))
       = [likeCall [0x61, 0x62, 0x63, 0x25],
          sqlite4PExpr TK_GE (Some (set_coll ''BINARY'' textColumn))
            (Some (strExpr [0x61, 0x62, 0x63])),
          sqlite4PExpr TK_LT (Some (set_coll ''BINARY'' textColumn))
            (Some (strExpr [0x61, 0x62, 0x64]))]
   \<and> map wtFlags (wc_a (the (exprAnalyze 2 (likeEnv False)
          (andClause (likeCall [0x61, 0x62, 0x63, 0x25])) 0)))
       = [0, TERM_VIRTUAL OR TERM_DYNAMIC, TERM_VIRTUAL OR TERM_DYNAMIC]
   \<and> map eOperator (drop 1 (wc_a (the (exprAnalyze 2 (likeEnv False)
          (andClause (likeCall [0x61, 0x62, 0x63, 0x25])) 0))))
       = [WO_GE, WO_LT]"
proof -
  let ?z = "[0x61, 0x62, 0x63, 0x25] :: 8 word list"
  let ?W = "andClause (likeCall ?z)"
  have h: "\<not> env_mallocFailed (likeEnv False)" "wc_op ?W = TK_AND" "(0::nat) < length (wc_a ?W)"
    "pExpr (wc_a ?W ! 0) = likeCall ?z"
    "ex_op (likeCall ?z) = TK_FUNCTION" "ex_pList (likeCall ?z) = [strExpr ?z, textColumn]"
    "env_isLike (likeEnv False) (likeCall ?z) = Some (False, 0x25, 0x5f, 0)"
    "ex_op textColumn = TK_COLUMN" "ex_aff textColumn = SQLITE4_AFF_TEXT"
    "\<not> ex_isVirtual textColumn"
    "isLikeOrGlob_pattern (likeEnv False) (strExpr ?z) = Some ?z"
    by (simp_all add: likeEnv_def andClause_def likeCall_def textColumn_def plainTerm_def
        isLikeOrGlob_pattern_def strExpr_def cstring_def)
  have p: "[0x61, 0x62, 0x63] = takeWhile (\<lambda>c. c \<noteq> 0x25 \<and> c \<noteq> 0x5f \<and> c \<noteq> 0) ?z"
    by simp
  have m: "\<not> isMatchOfColumn (likeEnv False) (likeCall ?z)"
    by (simp add: isMatchOfColumn_def likeCall_def likeEnv_def asciiUpperToLower_def cstring_def)
  then have m': "\<not> (env_vtab (likeEnv False) \<and> isMatchOfColumn (likeEnv False) (likeCall ?z))"
    by simp
  from exprAnalyze_like_rewrite [OF h p m', of 0]
  obtain pWC' where r0: "exprAnalyze (Suc (Suc 0)) (likeEnv False) ?W 0 = Some pWC'"
    and c: "map pExpr (wc_a pWC') = map pExpr (wc_a ?W)
                @ spec_like_bounds (likeEnv False) False textColumn [0x61, 0x62, 0x63]"
      "map wtFlags (wc_a pWC') = map wtFlags (wc_a ?W)
             @ [TERM_VIRTUAL OR TERM_DYNAMIC, TERM_VIRTUAL OR TERM_DYNAMIC]"
      "map eOperator (drop (length (wc_a ?W)) (wc_a pWC')) = [WO_GE, WO_LT]"
    by auto
  have two: "exprAnalyze 2 = exprAnalyze (Suc (Suc 0))"
    by (simp add: numeral_2_eq_2)
  have r: "exprAnalyze 2 (likeEnv False) ?W 0 = Some pWC'"
    using r0 by (simp only: two)
  have t: "the (exprAnalyze 2 (likeEnv False) ?W 0) = pWC'"
    by (simp only: r option.sel)
  have "map pExpr (wc_a (the (exprAnalyze 2 (likeEnv False) ?W 0)))
       = [likeCall ?z,
          sqlite4PExpr TK_GE (Some (set_coll ''BINARY'' textColumn))
            (Some (strExpr [0x61, 0x62, 0x63])),
          sqlite4PExpr TK_LT (Some (set_coll ''BINARY'' textColumn))
            (Some (strExpr [0x61, 0x62, 0x64]))]"
    unfolding t using c(1) by (simp add: andClause_def plainTerm_def spec_like_bounds_def)
  moreover have "map wtFlags (wc_a (the (exprAnalyze 2 (likeEnv False) ?W 0)))
       = [0, TERM_VIRTUAL OR TERM_DYNAMIC, TERM_VIRTUAL OR TERM_DYNAMIC]"
    unfolding t using c(2) by (simp add: andClause_def plainTerm_def)
  moreover have "map eOperator (drop 1 (wc_a (the (exprAnalyze 2 (likeEnv False) ?W 0))))
       = [WO_GE, WO_LT]"
    unfolding t using c(3) by (simp add: andClause_def plainTerm_def)
  ultimately show ?thesis
    using h m by simp
qed

text \<open>
  The claim C6 forms the upper bound by incrementing the last byte of the prefix.
  For \<^verbatim>\<open>x LIKE 'ABC%'\<close> with a LIKE that ignores case, the last byte \<^verbatim>\<open>'C'\<close> is first
  translated to \<^verbatim>\<open>'c'\<close>: the upper bound is \<^verbatim>\<open>'ABd'\<close>, and not \<^verbatim>\<open>'ABD'\<close>.
\<close>

theorem exprAnalyze_like_nocase_counterexample:
  "map pExpr (wc_a (the (exprAnalyze 2 (likeEnv True)
       (andClause (likeCall [0x41, 0x42, 0x43, 0x25])) 0)))
     = [likeCall [0x41, 0x42, 0x43, 0x25],
        sqlite4PExpr TK_GE (Some (set_coll ''NOCASE'' textColumn))
          (Some (strExpr [0x41, 0x42, 0x43])),
        sqlite4PExpr TK_LT (Some (set_coll ''NOCASE'' textColumn))
          (Some (strExpr [0x41, 0x42, 0x64]))]
   \<and> spec_succ [0x41, 0x42, 0x43] = [0x41, 0x42, 0x44]"
  by code_simp

section \<open>Properties of the analysis of an OR term\<close>

lemma mask_sub: "(b::'a::len word) AND m = m \<Longrightarrow> bit m n \<Longrightarrow> bit b n"
  by (metis bit_and_iff)

lemma mask_keep1: "(i::'a::len word) AND m = m \<Longrightarrow> (i AND m) AND m = m"
  by (simp add: and.assoc)

lemma mask_keep2: "(i::'a::len word) AND m = m \<Longrightarrow> (i AND (x OR m)) AND m = m"
  by (rule bit_eqI) (auto simp: bit_simps dest: mask_sub)

lemma mask_keep3: "(b::'a::len word) AND m = m \<Longrightarrow> (a OR b OR d) AND m = m"
  by (rule bit_eqI) (auto simp: bit_simps dest: mask_sub)

lemma skip_usage:
  "sqlite4ExprSkipCollate p = Some c \<Longrightarrow> ex_op c = TK_COLUMN \<Longrightarrow>
   exprTableUsage ms p AND getMask ms (ex_iTable c) = getMask ms (ex_iTable c)"
proof (induction p rule: sqlite4ExprSkipCollate.induct)
  case 1
  then show ?case by simp
next
  case (2 op' op2 l r lst it ic z fj rj aff coll virt ec)
  show ?case
  proof (cases "op' = TK_COLLATE \<or> op' = TK_AS")
    case True
    then have ih: "exprTableUsage ms l AND getMask ms (ex_iTable c) = getMask ms (ex_iTable c)"
      using 2 by simp
    have ne: "op' \<noteq> TK_COLUMN" using True by auto
    from mask_keep3 [OF ih] show ?thesis
      using ne by simp
  next
    case False
    then have "c = Expr op' op2 l r lst it ic z fj rj aff coll virt ec"
      using 2 by auto
    then show ?thesis
      using 2 by simp
  qed
qed


lemma set_expCollate_sel [simp]:
  "ex_op (set_expCollate v e) = ex_op e" "ex_iTable (set_expCollate v e) = ex_iTable e"
  "ex_iColumn (set_expCollate v e) = ex_iColumn e" "ex_pLeft (set_expCollate v e) = ex_pLeft e"
  by (cases e; simp)+

lemma skip_expCollate:
  "sqlite4ExprSkipCollate (Some r) = Some c \<Longrightarrow>
   \<exists>c'. sqlite4ExprSkipCollate (Some (set_expCollate v r)) = Some c'
      \<and> ex_op c' = ex_op c \<and> ex_iTable c' = ex_iTable c \<and> ex_iColumn c' = ex_iColumn c"
  by (cases r) (auto split: if_splits)

lemma commute_eq:
  assumes "ex_op l = TK_EQ" "ex_pLeft l = Some x" "ex_pRight l = Some r"
    and "sqlite4ExprSkipCollate (Some r) = Some c"
  shows "\<exists>d c'. exprCommute env l = Some d \<and> ex_op d = TK_EQ
     \<and> sqlite4ExprSkipCollate (ex_pLeft d) = Some c'
     \<and> ex_op c' = ex_op c \<and> ex_iTable c' = ex_iTable c \<and> ex_iColumn c' = ex_iColumn c"
proof -
  from skip_expCollate [OF assms(4), of False]
  obtain c1 where c1: "sqlite4ExprSkipCollate (Some (set_expCollate False r)) = Some c1"
    "ex_op c1 = ex_op c" "ex_iTable c1 = ex_iTable c" "ex_iColumn c1 = ex_iColumn c"
    by auto
  show ?thesis
    using assms c1
    by (cases l) (auto simp: exprCommute_def Let_def)
qed


lemma wo_eq_bits:
  "WO_EQ AND WO_ALL = WO_EQ" "(WO_EQ + WO_EQUIV) AND WO_ALL = WO_EQ OR WO_EQUIV"
  "WO_EQ AND WO_EQ \<noteq> 0" "(WO_EQ OR WO_EQUIV) AND WO_EQ \<noteq> 0" "WO_EQ \<noteq> 0"
  "(0::8 word) AND TERM_VIRTUAL = 0" "(0 OR TERM_COPIED) AND TERM_VIRTUAL = 0"
  "(TERM_VIRTUAL OR TERM_DYNAMIC) AND TERM_VIRTUAL \<noteq> 0"
  "(TERM_VIRTUAL OR TERM_DYNAMIC) AND TERM_COPIED = 0"
  by (simp_all add: WO_EQ_def WO_ALL_def WO_EQUIV_def TERM_VIRTUAL_def TERM_COPIED_def
      TERM_DYNAMIC_def)

lemma leaf_analysis:
  assumes nm: "\<not> env_mallocFailed env" and i: "i < length (wc_a W)"
    and t: "wc_a W ! i = plainTerm l 0 0 0"
    and l: "spec_eqTerm (env_maskSet env) T C l"
    and mT: "getMask (env_maskSet env) T \<noteq> 0" and T0: "0 \<le> T"
    and par: "i < n"
  shows "\<exists>W'. exprAnalyze (Suc fuel) env W i = Some W'
     \<and> length (wc_a W) \<le> length (wc_a W')
     \<and> (\<forall>j<length (wc_a W). j \<noteq> i \<longrightarrow> wc_a W' ! j = wc_a W ! j)
     \<and> or_orig (env_maskSet env) T C (wc_a W' ! i) \<and> pExpr (wc_a W' ! i) = l
     \<and> (\<forall>j. length (wc_a W) \<le> j \<and> j < length (wc_a W') \<longrightarrow> or_twin n T (wc_a W' ! j))"
proof -
  let ?ms = "env_maskSet env"
  from l obtain x r where op: "ex_op l = TK_EQ" and pl: "ex_pLeft l = Some x"
    and x: "ex_op x = TK_COLUMN" "ex_iTable x = T" "ex_iColumn x = C"
    and pr: "ex_pRight l = Some r"
    and ru: "exprTableUsage ?ms (Some r) AND getMask ?ms T = 0"
    by (auto simp: spec_eqTerm_def spec_eqClaim_def split: option.splits)
  have pe: "pExpr (wc_a W ! i) = l" and fl: "wtFlags (wc_a W ! i) = 0"
    using t by (simp_all add: plainTerm_def)
  obtain W1 pl' pa er where head: "exprAnalyze_head env W i = (W1, pl', pa, er)"
    by (cases "exprAnalyze_head env W i") auto
  from head pe op pl pr x have W1: "W1 = updTerm W i (\<lambda>t. t\<lparr>prereqRight := exprTableUsage ?ms (Some r),
        prereqAll := pa, leftCursor := - 1, iParent := - 1, eOperator := 0\<rparr>)"
    and pl': "pl' = getMask ?ms T"
    by (auto simp: exprAnalyze_head_def Let_def usage_column)
  have al: "allowedOp (ex_op (pExpr (wc_a W ! i)))"
    using pe op by (simp add: allowedOp_def)
  have sx: "sqlite4ExprSkipCollate (Some x) = Some x"
    using x by (simp add: skip_notAs)
  have om: "operatorMask TK_EQ = WO_EQ"
    by (simp add: operatorMask_def)
  show ?thesis
  proof (cases "case sqlite4ExprSkipCollate (Some r) of None \<Rightarrow> False | Some c \<Rightarrow> ex_op c = TK_COLUMN")
    case False
    define W2 where "W2 = updTerm W1 i (\<lambda>t. t\<lparr>leftCursor := T, leftColumn := C, eOperator := WO_EQ\<rparr>)"
    have a: "exprAnalyze_allowed env W1 i pl' pa er = Some W2"
      using False i pe op pl pr x ru sx
      by (simp add: exprAnalyze_allowed_def W1 pl' Let_def om wo_eq_bits W2_def)
    have r: "exprAnalyze (Suc fuel) env W i =
       Some (updTerm W2 i (\<lambda>t. t\<lparr>prereqRight := prereqRight t OR er\<rparr>))"
      by (rule analyze_allowed [OF nm i al head a]) (use i pe al in \<open>simp_all add: W2_def W1\<close>)
    show ?thesis
      unfolding r
      apply (rule exI, rule conjI, rule refl)
      using i pe fl l
      by (auto simp: W2_def W1 or_orig_def wo_eq_bits)
  next
    case True
    then obtain c where c: "sqlite4ExprSkipCollate (Some r) = Some c" "ex_op c = TK_COLUMN"
      by (auto split: option.splits)
    from commute_eq [OF op pl pr c(1), of env]
    obtain d c' where d: "exprCommute env l = Some d" "ex_op d = TK_EQ"
      "sqlite4ExprSkipCollate (ex_pLeft d) = Some c'" "ex_iTable c' = ex_iTable c"
      "ex_iColumn c' = ex_iColumn c"
      by auto
    have cT: "ex_iTable c \<noteq> T"
    proof
      assume "ex_iTable c = T"
      with skip_usage [OF c, of ?ms] ru mT show False by simp
    qed
    have sl: "sqlite4ExprSkipCollate (Some l) = Some l"
      using op by (simp add: skip_notAs)
    have "\<exists>W2. exprAnalyze_allowed env W1 i pl' pa er = Some W2
       \<and> length (wc_a W2) = Suc (length (wc_a W))
       \<and> (\<forall>j<length (wc_a W). j \<noteq> i \<longrightarrow> wc_a W2 ! j = wc_a W ! j)
       \<and> pExpr (wc_a W2 ! i) = l \<and> leftCursor (wc_a W2 ! i) = T \<and> leftColumn (wc_a W2 ! i) = C
       \<and> eOperator (wc_a W2 ! i) AND WO_EQ \<noteq> 0 \<and> wtFlags (wc_a W2 ! i) AND TERM_VIRTUAL = 0
       \<and> or_twin n T (wc_a W2 ! length (wc_a W))"
      using i pe op pl pr x ru sx c d T0 sl fl cT par
      apply (simp add: exprAnalyze_allowed_def W1 pl' Let_def om wo_eq_bits whereClauseInsert_def
          exprAnalyze_commute_def)
      apply (simp add: updTerm_def nth_append or_twin_def wo_eq_bits)
      apply (simp add: operatorMask_def WO_EQ_def WO_ALL_def WO_EQUIV_def TERM_VIRTUAL_def
          TERM_COPIED_def)
      done
    then obtain W2 where a: "exprAnalyze_allowed env W1 i pl' pa er = Some W2"
      and W2: "length (wc_a W2) = Suc (length (wc_a W))"
        "\<And>j. j < length (wc_a W) \<Longrightarrow> j \<noteq> i \<Longrightarrow> wc_a W2 ! j = wc_a W ! j"
        "pExpr (wc_a W2 ! i) = l" "leftCursor (wc_a W2 ! i) = T" "leftColumn (wc_a W2 ! i) = C"
        "eOperator (wc_a W2 ! i) AND WO_EQ \<noteq> 0" "wtFlags (wc_a W2 ! i) AND TERM_VIRTUAL = 0"
        "or_twin n T (wc_a W2 ! length (wc_a W))"
      by (elim exE conjE) simp
    have i2: "i < length (wc_a W2)"
      using i W2(1) by simp
    have r: "exprAnalyze (Suc fuel) env W i =
       Some (updTerm W2 i (\<lambda>t. t\<lparr>prereqRight := prereqRight t OR er\<rparr>))"
      by (rule analyze_allowed [OF nm i al head a i2])
         (use pe al W2(3) in \<open>simp\<close>)
    have tw: "or_twin n T (wc_a W2 ! j)" if "length (wc_a W) \<le> j" "j < length (wc_a W2)" for j
    proof -
      have "j = length (wc_a W)" using that W2(1) by simp
      then show ?thesis using W2(8) by simp
    qed
    show ?thesis
      unfolding r
      apply (rule exI, rule conjI, rule refl)
      using i i2 W2(1-7) l tw
      by (auto simp: or_orig_def updTerm_def nth_list_update)
  qed
qed


lemma analyzeAll_or:
  assumes nm: "\<not> env_mallocFailed env"
    and mT: "getMask (env_maskSet env) T \<noteq> 0" and T0: "0 \<le> T"
  shows "or_inv (env_maskSet env) T C n k (wc_a W) \<Longrightarrow>
     \<exists>W'. exprAnalyzeAll_loop (exprAnalyze (Suc fuel) env) W k = Some W'
       \<and> or_inv (env_maskSet env) T C n 0 (wc_a W')
       \<and> map pExpr (take n (wc_a W')) = map pExpr (take n (wc_a W))"
proof (induction k arbitrary: W)
  case 0
  then show ?case by simp
next
  case (Suc k)
  let ?ms = "env_maskSet env"
  note inv = Suc.prems
  have kn: "k < n" and nl: "n \<le> length (wc_a W)"
    and fresh: "\<And>j. j < Suc k \<Longrightarrow> wc_a W ! j = plainTerm (pExpr (wc_a W ! j)) 0 0 0
        \<and> spec_eqTerm ?ms T C (pExpr (wc_a W ! j))"
    and orig: "\<And>j. Suc k \<le> j \<Longrightarrow> j < n \<Longrightarrow> or_orig ?ms T C (wc_a W ! j)"
    and twin: "\<And>j. n \<le> j \<Longrightarrow> j < length (wc_a W) \<Longrightarrow> or_twin n T (wc_a W ! j)"
    using inv by (auto simp: or_inv_def)
  have kl: "k < length (wc_a W)" using kn nl by simp
  from leaf_analysis [OF nm kl _ _ mT T0 kn, of "pExpr (wc_a W ! k)" C fuel] fresh [of k]
  obtain W1 where a: "exprAnalyze (Suc fuel) env W k = Some W1"
    and len: "length (wc_a W) \<le> length (wc_a W1)"
    and same: "\<And>j. j < length (wc_a W) \<Longrightarrow> j \<noteq> k \<Longrightarrow> wc_a W1 ! j = wc_a W ! j"
    and ok: "or_orig ?ms T C (wc_a W1 ! k)" and pk: "pExpr (wc_a W1 ! k) = pExpr (wc_a W ! k)"
    and new: "\<And>j. length (wc_a W) \<le> j \<Longrightarrow> j < length (wc_a W1) \<Longrightarrow> or_twin n T (wc_a W1 ! j)"
    by auto
  have inv1: "or_inv ?ms T C n k (wc_a W1)"
    unfolding or_inv_def
  proof (intro conjI allI impI)
    show "k \<le> n" using kn by simp
    show "n \<le> length (wc_a W1)" using nl len by simp
  next
    fix j assume j: "j < k"
    then have "wc_a W1 ! j = wc_a W ! j" using same [of j] kl by simp
    then show "wc_a W1 ! j = plainTerm (pExpr (wc_a W1 ! j)) 0 0 0"
      and "spec_eqTerm ?ms T C (pExpr (wc_a W1 ! j))"
      using fresh [of j] j by simp_all
  next
    fix j assume j: "k \<le> j \<and> j < n"
    show "or_orig ?ms T C (wc_a W1 ! j)"
    proof (cases "j = k")
      case True
      then show ?thesis using ok by simp
    next
      case False
      then have "wc_a W1 ! j = wc_a W ! j" using same [of j] j nl by simp
      then show ?thesis using orig [of j] j False by simp
    qed
  next
    fix j assume j: "n \<le> j \<and> j < length (wc_a W1)"
    show "or_twin n T (wc_a W1 ! j)"
    proof (cases "j < length (wc_a W)")
      case True
      then have "wc_a W1 ! j = wc_a W ! j" using same [of j] j kn by simp
      then show ?thesis using twin [of j] j True by simp
    next
      case False
      then show ?thesis using new [of j] j by simp
    qed
  qed
  have pe1: "map pExpr (take n (wc_a W1)) = map pExpr (take n (wc_a W))"
  proof (rule nth_equalityI)
    show "length (map pExpr (take n (wc_a W1))) = length (map pExpr (take n (wc_a W)))"
      using nl len by simp
  next
    fix j assume "j < length (map pExpr (take n (wc_a W1)))"
    then have j: "j < n" by simp
    show "map pExpr (take n (wc_a W1)) ! j = map pExpr (take n (wc_a W)) ! j"
    proof (cases "j = k")
      case True
      then show ?thesis using pk j nl len by simp
    next
      case False
      then show ?thesis using same [of j] j nl len by simp
    qed
  qed
  from Suc.IH [OF inv1] obtain W' where
    "exprAnalyzeAll_loop (exprAnalyze (Suc fuel) env) W1 k = Some W'"
    "or_inv ?ms T C n 0 (wc_a W')" "map pExpr (take n (wc_a W')) = map pExpr (take n (wc_a W1))"
    by auto
  then show ?case
    using a pe1 by simp
qed

lemma wo_single_eq: "(x::16 word) AND WO_EQ \<noteq> 0 \<Longrightarrow> x AND WO_SINGLE \<noteq> 0"
proof -
  assume a: "x AND WO_EQ \<noteq> 0"
  have "x AND WO_EQ = (x AND WO_SINGLE) AND WO_EQ"
    by (simp add: and.assoc WO_EQ_def WO_SINGLE_def)
  then show ?thesis using a by auto
qed

lemma tables_or:
  assumes mT: "getMask (env_maskSet env) T \<noteq> 0"
    and inv: "or_inv (env_maskSet env) T C n 0 a"
  shows "indexable AND getMask (env_maskSet env) T = getMask (env_maskSet env) T \<Longrightarrow>
     chngToIN AND getMask (env_maskSet env) T = getMask (env_maskSet env) T \<Longrightarrow>
     \<exists>ix ch. exprAnalyzeOrTerm_tables env an a k indexable chngToIN = Some (a, ix, ch)
       \<and> ix AND getMask (env_maskSet env) T = getMask (env_maskSet env) T
       \<and> ch AND getMask (env_maskSet env) T = getMask (env_maskSet env) T"
proof (induction "length a - k" arbitrary: k indexable chngToIN)
  case 0
  then show ?case
    by (subst exprAnalyzeOrTerm_tables.simps) simp
next
  case (Suc m)
  let ?m = "getMask (env_maskSet env) T"
  have k: "k < length a" using Suc.hyps(2) by simp
  have nz: "indexable \<noteq> 0" using Suc.prems(1) mT by auto
  have step: "m = length a - (k + 1)" using Suc.hyps(2) by simp
  have nl: "n \<le> length a" using inv by (simp add: or_inv_def)
  show ?case
  proof (cases "k < n")
    case True
    then have o: "or_orig (env_maskSet env) T C (a ! k)"
      using inv by (simp add: or_inv_def)
    then have s: "eOperator (a ! k) AND WO_SINGLE \<noteq> 0" and e: "eOperator (a ! k) AND WO_EQ \<noteq> 0"
      and v: "wtFlags (a ! k) AND TERM_VIRTUAL = 0" and c: "leftCursor (a ! k) = T"
      by (auto simp: or_orig_def wo_single_eq)
    show ?thesis
    proof (cases "wtFlags (a ! k) AND TERM_COPIED \<noteq> 0")
      case True
      from Suc.hyps(1) [OF step Suc.prems] show ?thesis
        using k nz s True by (subst exprAnalyzeOrTerm_tables.simps) simp
    next
      case False
      from Suc.hyps(1) [OF step mask_keep1 [OF Suc.prems(1)] mask_keep1 [OF Suc.prems(2)]]
      show ?thesis
        using k nz s e v c False by (subst exprAnalyzeOrTerm_tables.simps) (simp add: Let_def)
    qed
  next
    case False
    then have tw: "or_twin n T (a ! k)"
      using inv k by (simp add: or_inv_def)
    then have s: "eOperator (a ! k) AND WO_SINGLE \<noteq> 0" and e: "eOperator (a ! k) AND WO_EQ \<noteq> 0"
      and v: "wtFlags (a ! k) AND TERM_VIRTUAL \<noteq> 0" and c: "wtFlags (a ! k) AND TERM_COPIED = 0"
      and p: "0 \<le> iParent (a ! k)" "nat (iParent (a ! k)) < n"
      by (auto simp: or_twin_def wo_single_eq)
    have "or_orig (env_maskSet env) T C (a ! nat (iParent (a ! k)))"
      using inv p by (simp add: or_inv_def)
    then have pc: "leftCursor (a ! nat (iParent (a ! k))) = T"
      by (simp add: or_orig_def)
    from Suc.hyps(1) [OF step mask_keep2 [OF Suc.prems(1)] mask_keep2 [OF Suc.prems(2)]]
    show ?thesis
      using k nz s e v c p pc nl by (subst exprAnalyzeOrTerm_tables.simps) (simp add: Let_def)
  qed
qed


lemma search_or:
  assumes "0 < length a" "leftCursor (a ! 0) = T" "0 \<le> T"
    and "chngToIN AND getMask (env_maskSet env) T \<noteq> 0"
  shows "exprAnalyzeOrTerm_search env chngToIN (- 1) a 0 =
     (a[0 := (a ! 0)\<lparr>wtFlags := wtFlags (a ! 0) AND NOT TERM_OR_OK\<rparr>], Some 0)"
  using assms by (subst exprAnalyzeOrTerm_search.simps) (auto simp: Let_def)

lemma or_ok_bits:
  "((f::8 word) OR TERM_OR_OK) AND TERM_OR_OK \<noteq> 0" "(f AND NOT TERM_OR_OK) AND TERM_OR_OK = 0"
  "TERM_OR_OK \<noteq> 0"
proof -
  show "TERM_OR_OK \<noteq> 0" by (simp add: TERM_OR_OK_def)
  have "(f OR TERM_OR_OK) AND TERM_OR_OK = TERM_OR_OK"
    by (rule bit_eqI) (auto simp: bit_simps)
  then show "(f OR TERM_OR_OK) AND TERM_OR_OK \<noteq> 0"
    by (simp add: TERM_OR_OK_def)
  show "(f AND NOT TERM_OR_OK) AND TERM_OR_OK = 0"
    by (rule bit_eqI) (auto simp: bit_simps)
qed

lemma check_or:
  "(\<And>j. k \<le> j \<Longrightarrow> j < length a \<Longrightarrow> leftCursor (a ! j) = T \<Longrightarrow>
      leftColumn (a ! j) = C
      \<and> \<not> (sqlite4ExprAffinity (ex_pRight (pExpr (a ! j))) \<noteq> 0
           \<and> sqlite4ExprAffinity (ex_pRight (pExpr (a ! j)))
               \<noteq> sqlite4ExprAffinity (ex_pLeft (pExpr (a ! j))))) \<Longrightarrow>
   \<exists>a'. exprAnalyzeOrTerm_check T C a k True = (a', True) \<and> length a' = length a
     \<and> (\<forall>j<length a. pExpr (a' ! j) = pExpr (a ! j) \<and> leftCursor (a' ! j) = leftCursor (a ! j)
           \<and> (j < k \<longrightarrow> a' ! j = a ! j)
           \<and> (k \<le> j \<longrightarrow> (wtFlags (a' ! j) AND TERM_OR_OK \<noteq> 0) = (leftCursor (a ! j) = T)))"
proof (induction "length a - k" arbitrary: k a)
  case 0
  then show ?case
    by (subst exprAnalyzeOrTerm_check.simps) simp
next
  case (Suc m)
  have k: "k < length a" using Suc.hyps(2) by simp
  define a1 where "a1 = (if leftCursor (a ! k) \<noteq> T
      then a[k := (a ! k)\<lparr>wtFlags := wtFlags (a ! k) AND NOT TERM_OR_OK\<rparr>]
      else a[k := (a ! k)\<lparr>wtFlags := wtFlags (a ! k) OR TERM_OR_OK\<rparr>])"
  have len1: "length a1 = length a" by (simp add: a1_def)
  have unf: "exprAnalyzeOrTerm_check T C a k True = exprAnalyzeOrTerm_check T C a1 (k + 1) True"
    using k Suc.prems [of k]
    by (subst exprAnalyzeOrTerm_check.simps) (auto simp: Let_def a1_def)
  have same1: "\<And>j. j \<noteq> k \<Longrightarrow> a1 ! j = a ! j"
    by (simp add: a1_def)
  have at1: "pExpr (a1 ! k) = pExpr (a ! k)" "leftCursor (a1 ! k) = leftCursor (a ! k)"
    "(wtFlags (a1 ! k) AND TERM_OR_OK \<noteq> 0) = (leftCursor (a ! k) = T)"
    using k by (simp_all add: a1_def or_ok_bits)
  have step: "m = length a1 - (k + 1)" using Suc.hyps(2) len1 by simp
  have pre1: "leftColumn (a1 ! j) = C
      \<and> \<not> (sqlite4ExprAffinity (ex_pRight (pExpr (a1 ! j))) \<noteq> 0
           \<and> sqlite4ExprAffinity (ex_pRight (pExpr (a1 ! j)))
               \<noteq> sqlite4ExprAffinity (ex_pLeft (pExpr (a1 ! j))))"
    if "k + 1 \<le> j" "j < length a1" "leftCursor (a1 ! j) = T" for j
  proof -
    have e: "a1 ! j = a ! j" using that(1) same1 [of j] by simp
    have "k \<le> j" "j < length a" "leftCursor (a ! j) = T"
      using that len1 e by simp_all
    from Suc.prems [OF this] show ?thesis
      unfolding e .
  qed
  from Suc.hyps(1) [OF step pre1]
  obtain a' where all: "exprAnalyzeOrTerm_check T C a1 (k + 1) True = (a', True) \<and> length a' = length a1
     \<and> (\<forall>j<length a1. pExpr (a' ! j) = pExpr (a1 ! j) \<and> leftCursor (a' ! j) = leftCursor (a1 ! j)
           \<and> (j < k + 1 \<longrightarrow> a' ! j = a1 ! j)
           \<and> (k + 1 \<le> j \<longrightarrow> (wtFlags (a' ! j) AND TERM_OR_OK \<noteq> 0) = (leftCursor (a1 ! j) = T)))"
    by (rule exE)
  note r = all [THEN conjunct1]
  note len = all [THEN conjunct2, THEN conjunct1]
  have p: "pExpr (a' ! j) = pExpr (a1 ! j) \<and> leftCursor (a' ! j) = leftCursor (a1 ! j)
           \<and> (j < k + 1 \<longrightarrow> a' ! j = a1 ! j)
           \<and> (k + 1 \<le> j \<longrightarrow> (wtFlags (a' ! j) AND TERM_OR_OK \<noteq> 0) = (leftCursor (a1 ! j) = T))"
    if "j < length a1" for j
    by (rule all [THEN conjunct2, THEN conjunct2, rule_format, OF that])
  show ?case
  proof (intro exI conjI allI impI)
    show "exprAnalyzeOrTerm_check T C a k True = (a', True)" using unf r by simp
    show "length a' = length a" using len len1 by simp
  next
    fix j assume j: "j < length a"
    then have j1: "j < length a1" using len1 by simp
    note pj = p [OF j1]
    show "pExpr (a' ! j) = pExpr (a ! j)"
    proof (cases "j = k")
      case True
      then show ?thesis using pj at1(1) by simp
    next
      case False
      then show ?thesis using pj same1 [of j] by simp
    qed
    show "leftCursor (a' ! j) = leftCursor (a ! j)"
    proof (cases "j = k")
      case True
      then show ?thesis using pj at1(2) by simp
    next
      case False
      then show ?thesis using pj same1 [of j] by simp
    qed
    show "a' ! j = a ! j" if "j < k"
      using pj same1 [of j] that by simp
    show "(wtFlags (a' ! j) AND TERM_OR_OK \<noteq> 0) = (leftCursor (a ! j) = T)" if "k \<le> j"
    proof (cases "j = k")
      case True
      then have "a' ! j = a1 ! k" using pj by simp
      then show ?thesis using at1(3) True by simp
    next
      case False
      then have "k + 1 \<le> j" using that by simp
      then show ?thesis using pj same1 [of j] False by simp
    qed
  qed
qed

lemma those_map_Some: "those (map Some xs) = Some xs"
  by (induction xs) simp_all

lemma filter_take:
  assumes "n \<le> length a" "\<And>j. j < n \<Longrightarrow> P (a ! j)" "\<And>j. n \<le> j \<Longrightarrow> j < length a \<Longrightarrow> \<not> P (a ! j)"
  shows "filter P a = take n a"
proof -
  have "filter P (take n a) = take n a"
    using assms(1,2) by (auto simp: filter_id_conv in_set_conv_nth)
  moreover have "filter P (drop n a) = []"
    using assms(1,3) by (auto simp: filter_empty_conv in_set_conv_nth)
  ultimately have "filter P (take n a @ drop n a) = take n a"
    by (simp only: filter_append append_Nil2)
  then show ?thesis by simp
qed

lemma newExpr_or:
  assumes n: "0 < n" "n \<le> length a"
    and ok: "\<And>j. j < n \<Longrightarrow> wtFlags (a ! j) AND TERM_OR_OK \<noteq> 0"
    and no: "\<And>j. n \<le> j \<Longrightarrow> j < length a \<Longrightarrow> wtFlags (a ! j) AND TERM_OR_OK = 0"
    and ls: "map pExpr (take n a) = ls" and rs: "map ex_pRight ls = map Some rs"
    and x: "ex_pLeft (last ls) = Some x"
  shows "exprAnalyzeOrTerm_newExpr a e = Some (spec_inExpr e ls rs)"
proof -
  have f: "filter (\<lambda>t. wtFlags t AND TERM_OR_OK \<noteq> 0) a = take n a"
    by (rule filter_take [OF n(2)]) (use ok no in auto)
  have ne: "take n a \<noteq> []" using n by auto
  have r: "map (\<lambda>t. ex_pRight (pExpr t)) (take n a) = map Some rs"
  proof -
    have "map (\<lambda>t. ex_pRight (pExpr t)) (take n a) = map ex_pRight (map pExpr (take n a))"
      by simp
    then show ?thesis by (simp only: ls rs)
  qed
  have l: "pExpr (last (take n a)) = last ls"
    using ls ne by (simp add: last_map [symmetric] del: last_map)
  show ?thesis
    using ne x by (simp add: exprAnalyzeOrTerm_newExpr_def f r those_map_Some l spec_inExpr_def)
qed

lemma listUsage_zero:
  "(\<And>r. r \<in> set rs \<Longrightarrow> exprTableUsage ms (Some r) AND m = 0) \<Longrightarrow>
   exprListTableUsage ms rs AND m = 0"
proof -
  have "acc AND m = 0 \<Longrightarrow> (\<And>r. r \<in> set rs \<Longrightarrow> exprTableUsage ms (Some r) AND m = 0) \<Longrightarrow>
     foldl (\<lambda>mask e. mask OR exprTableUsage ms (Some e)) acc rs AND m = 0" for acc
  proof (induction rs arbitrary: acc)
    case Nil
    then show ?case by simp
  next
    case (Cons r rs)
    have "(acc OR exprTableUsage ms (Some r)) AND m = 0"
      using Cons.prems(1) Cons.prems(2) [of r] by (simp add: bit.conj_disj_distrib2)
    from Cons.IH [OF this] Cons.prems(2) show ?case by simp
  qed
  from this [of 0] show "(\<And>r. r \<in> set rs \<Longrightarrow> exprTableUsage ms (Some r) AND m = 0) \<Longrightarrow>
   exprListTableUsage ms rs AND m = 0"
    by (simp add: exprListTableUsage_def)
qed


lemma whereSplit_frame:
  "whereSplit W p op' = Some W' \<Longrightarrow>
   wc_op W' = op' \<and> wc_orInfo W' = wc_orInfo W \<and> length (wc_a W) \<le> length (wc_a W')
   \<and> (\<forall>j<length (wc_a W). wc_a W' ! j = wc_a W ! j)
   \<and> (\<forall>j. length (wc_a W) \<le> j \<and> j < length (wc_a W') \<longrightarrow>
          wc_a W' ! j = plainTerm (pExpr (wc_a W' ! j)) 0 0 0)"
proof (induction W p op' arbitrary: W' rule: whereSplit.induct)
  case (1 pWC op')
  then show ?case by auto
next
  case (2 pWC eop op2 l r lst it ic z fj rj aff coll virt ec op')
  show ?case
  proof (cases "eop \<noteq> op'")
    case True
    then show ?thesis
      using 2(3)
      by (auto simp: whereClauseInsert_def plainTerm_def nth_append split: option.splits)
  next
    case False
    then obtain W1 where w1: "whereSplit (pWC\<lparr>wc_op := op'\<rparr>) l op' = Some W1"
      and w2: "whereSplit W1 r op' = Some W'"
      using 2(3) by (auto split: option.splits)
    from 2(1) [OF _ w1] False
    have a: "wc_op W1 = op'" "wc_orInfo W1 = wc_orInfo pWC" "length (wc_a pWC) \<le> length (wc_a W1)"
      "\<And>j. j < length (wc_a pWC) \<Longrightarrow> wc_a W1 ! j = wc_a pWC ! j"
      "\<And>j. length (wc_a pWC) \<le> j \<Longrightarrow> j < length (wc_a W1) \<Longrightarrow>
          wc_a W1 ! j = plainTerm (pExpr (wc_a W1 ! j)) 0 0 0"
      by simp_all
    from 2(2) [OF _ w1 w2] False
    have b: "wc_op W' = op'" "wc_orInfo W' = wc_orInfo W1" "length (wc_a W1) \<le> length (wc_a W')"
      "\<And>j. j < length (wc_a W1) \<Longrightarrow> wc_a W' ! j = wc_a W1 ! j"
      "\<And>j. length (wc_a W1) \<le> j \<Longrightarrow> j < length (wc_a W') \<Longrightarrow>
          wc_a W' ! j = plainTerm (pExpr (wc_a W' ! j)) 0 0 0"
      by simp_all
    show ?thesis
    proof (intro conjI allI impI)
      show "wc_op W' = op'" by (rule b(1))
      show "wc_orInfo W' = wc_orInfo pWC" using a(2) b(2) by simp
      show "length (wc_a pWC) \<le> length (wc_a W')" using a(3) b(3) by simp
    next
      fix j assume "j < length (wc_a pWC)"
      then show "wc_a W' ! j = wc_a pWC ! j" using a(3,4) b(4) by simp
    next
      fix j assume j: "length (wc_a pWC) \<le> j \<and> j < length (wc_a W')"
      show "wc_a W' ! j = plainTerm (pExpr (wc_a W' ! j)) 0 0 0"
      proof (cases "j < length (wc_a W1)")
        case True
        then show ?thesis using a(5) [of j] b(4) [of j] j by simp
      next
        case False
        then show ?thesis using b(5) [of j] j by simp
      qed
    qed
  qed
qed

lemma in_sel:
  "ex_op (spec_inExpr e ls rs) = TK_IN" "ex_pLeft (spec_inExpr e ls rs) = ex_pLeft (last ls)"
  "ex_pRight (spec_inExpr e ls rs) = None" "ex_pList (spec_inExpr e ls rs) = rs"
  by (simp_all add: spec_inExpr_def sqlite4PExpr_def)

lemma analyze_in_term:
  assumes nm: "\<not> env_mallocFailed env"
    and i: "i < length (wc_a W)"
    and e: "pExpr (wc_a W ! i) = spec_inExpr e ls rs"
    and x: "ex_pLeft (last ls) = Some x" "ex_op x = TK_COLUMN"
    and rs: "\<And>r. r \<in> set rs \<Longrightarrow>
        exprTableUsage (env_maskSet env) (Some r) AND getMask (env_maskSet env) (ex_iTable x) = 0"
  shows "\<exists>F. exprAnalyze (Suc fuel) env W i = Some (updTerm W i F)
     \<and> (\<forall>t. pExpr (F t) = pExpr t \<and> wtFlags (F t) = wtFlags t \<and> nChild (F t) = nChild t
          \<and> leftCursor (F t) = ex_iTable x \<and> leftColumn (F t) = ex_iColumn x
          \<and> eOperator (F t) = WO_IN)"
proof -
  let ?ms = "env_maskSet env"
  have al: "allowedOp (ex_op (pExpr (wc_a W ! i)))"
    using e by (simp add: in_sel allowedOp_def)
  obtain W1 pl pa er where head: "exprAnalyze_head env W i = (W1, pl, pa, er)"
    by (cases "exprAnalyze_head env W i") auto
  from head e x obtain F1 where W1: "W1 = updTerm W i F1"
    and pl: "pl = getMask ?ms (ex_iTable x)"
    and F1: "\<And>t. pExpr (F1 t) = pExpr t \<and> wtFlags (F1 t) = wtFlags t \<and> nChild (F1 t) = nChild t
        \<and> prereqRight (F1 t) = exprListTableUsage ?ms rs"
    by (auto simp: exprAnalyze_head_def Let_def in_sel usage_column)
  have e1: "pExpr (wc_a W1 ! i) = spec_inExpr e ls rs"
    using W1 i e F1 by simp
  have z: "exprListTableUsage ?ms rs AND getMask ?ms (ex_iTable x) = 0"
    by (rule listUsage_zero) (rule rs)
  have om: "operatorMask TK_IN AND WO_ALL = WO_IN"
    by (simp add: operatorMask_def WO_IN_def WO_ALL_def)
  have "\<exists>F2. exprAnalyze_allowed env W1 i pl pa er = Some (updTerm W1 i F2)
     \<and> (\<forall>t. pExpr (F2 t) = pExpr t \<and> wtFlags (F2 t) = wtFlags t \<and> nChild (F2 t) = nChild t
          \<and> leftCursor (F2 t) = ex_iTable x \<and> leftColumn (F2 t) = ex_iColumn x
          \<and> eOperator (F2 t) = WO_IN)"
    using e1 x om W1 i F1 z pl
    apply (simp add: exprAnalyze_allowed_def Let_def in_sel skip_notAs)
    apply (rule exI, rule conjI, rule refl)
    apply simp
    done
  then obtain F2 where a: "exprAnalyze_allowed env W1 i pl pa er = Some (updTerm W1 i F2)"
    and F2: "\<And>t. pExpr (F2 t) = pExpr t \<and> wtFlags (F2 t) = wtFlags t \<and> nChild (F2 t) = nChild t
          \<and> leftCursor (F2 t) = ex_iTable x \<and> leftColumn (F2 t) = ex_iColumn x
          \<and> eOperator (F2 t) = WO_IN"
    by (elim exE conjE) simp
  have r: "exprAnalyze (Suc fuel) env W i =
     Some (updTerm (updTerm W1 i F2) i (\<lambda>t. t\<lparr>prereqRight := prereqRight t OR er\<rparr>))"
    apply (rule analyze_allowed [OF nm i al head a])
    using e al W1 i F1 F2 by simp_all
  show ?thesis
    unfolding r W1
    apply (simp only: updTerm_updTerm)
    apply (rule exI, rule conjI, rule refl)
    using F1 F2 by simp
qed


lemma eqTerm_aff:
  "spec_eqTerm ms T C l \<Longrightarrow>
   \<not> (sqlite4ExprAffinity (ex_pRight l) \<noteq> 0
      \<and> sqlite4ExprAffinity (ex_pRight l) \<noteq> sqlite4ExprAffinity (ex_pLeft l))"
  by (auto simp: spec_eqTerm_def spec_eqClaim_def sqlite4ExprAffinity_def split: option.splits)

lemma choose_or:
  assumes inv: "or_inv (env_maskSet env) T C n 0 a" and n: "0 < n" and T0: "0 \<le> T"
    and ch: "chngToIN AND getMask (env_maskSet env) T = getMask (env_maskSet env) T"
    and mT: "getMask (env_maskSet env) T \<noteq> 0"
  shows "\<exists>a2. exprAnalyzeOrTerm_choose env chngToIN a = (a2, True) \<and> length a2 = length a
     \<and> (\<forall>j<length a. pExpr (a2 ! j) = pExpr (a ! j))
     \<and> (\<forall>j<n. wtFlags (a2 ! j) AND TERM_OR_OK \<noteq> 0)
     \<and> (\<forall>j. n \<le> j \<and> j < length a \<longrightarrow> wtFlags (a2 ! j) AND TERM_OR_OK = 0)"
proof -
  let ?ms = "env_maskSet env"
  have nl: "n \<le> length a"
    and orig: "\<And>j. j < n \<Longrightarrow> or_orig ?ms T C (a ! j)"
    and twin: "\<And>j. n \<le> j \<Longrightarrow> j < length a \<Longrightarrow> or_twin n T (a ! j)"
    using inv by (auto simp: or_inv_def)
  define a1 where "a1 = a[0 := (a ! 0)\<lparr>wtFlags := wtFlags (a ! 0) AND NOT TERM_OR_OK\<rparr>]"
  have l0: "0 < length a" using n nl by (cases a) auto
  have o0: "leftCursor (a ! 0) = T" "leftColumn (a ! 0) = C"
    using orig [of 0] n by (simp_all add: or_orig_def)
  have s: "exprAnalyzeOrTerm_search env chngToIN (- 1) a 0 = (a1, Some 0)"
    unfolding a1_def by (rule search_or [OF l0 o0(1) T0]) (use ch mT in simp)
  have len1: "length a1 = length a" by (simp add: a1_def)
  have f1: "pExpr (a1 ! j) = pExpr (a ! j)" "leftCursor (a1 ! j) = leftCursor (a ! j)"
    "leftColumn (a1 ! j) = leftColumn (a ! j)" if "j < length a" for j
    using that by (cases j; simp add: a1_def)+
  have c0: "leftCursor (a1 ! 0) = T" "leftColumn (a1 ! 0) = C"
    using f1 [of 0] l0 o0 by simp_all
  have isorig: "j < n" if "j < length a" "leftCursor (a ! j) = T" for j
  proof (rule ccontr)
    assume "\<not> j < n"
    then have "or_twin n T (a ! j)" using twin [of j] that(1) by simp
    then show False using that(2) by (simp add: or_twin_def)
  qed
  have pre: "leftColumn (a1 ! j) = C
      \<and> \<not> (sqlite4ExprAffinity (ex_pRight (pExpr (a1 ! j))) \<noteq> 0
           \<and> sqlite4ExprAffinity (ex_pRight (pExpr (a1 ! j)))
               \<noteq> sqlite4ExprAffinity (ex_pLeft (pExpr (a1 ! j))))"
    if "0 \<le> j" "j < length a1" "leftCursor (a1 ! j) = T" for j
  proof -
    have ja: "j < length a" using that(2) len1 by simp
    then have "leftCursor (a ! j) = T" using that(3) f1 [of j] by simp
    then have "or_orig ?ms T C (a ! j)" using isorig [OF ja] orig by simp
    then have "leftColumn (a ! j) = C" "spec_eqTerm ?ms T C (pExpr (a ! j))"
      by (simp_all add: or_orig_def)
    then show ?thesis
      using f1 [OF ja] eqTerm_aff [of ?ms T C "pExpr (a ! j)"] by simp
  qed
  from check_or [of 0 a1 T C, OF pre]
  obtain a2 where all: "exprAnalyzeOrTerm_check T C a1 0 True = (a2, True) \<and> length a2 = length a1
     \<and> (\<forall>j<length a1. pExpr (a2 ! j) = pExpr (a1 ! j) \<and> leftCursor (a2 ! j) = leftCursor (a1 ! j)
           \<and> (j < 0 \<longrightarrow> a2 ! j = a1 ! j)
           \<and> (0 \<le> j \<longrightarrow> (wtFlags (a2 ! j) AND TERM_OR_OK \<noteq> 0) = (leftCursor (a1 ! j) = T)))"
    by (rule exE)
  note c = all [THEN conjunct1]
  note len2 = all [THEN conjunct2, THEN conjunct1]
  have p2: "pExpr (a2 ! j) = pExpr (a1 ! j)"
    "(wtFlags (a2 ! j) AND TERM_OR_OK \<noteq> 0) = (leftCursor (a1 ! j) = T)" if "j < length a1" for j
    using all [THEN conjunct2, THEN conjunct2, rule_format, OF that] by simp_all
  have r: "exprAnalyzeOrTerm_choose env chngToIN a = (a2, True)"
    by (simp add: exprAnalyzeOrTerm_choose_def exprAnalyzeOrTerm_pass_def s c0 c)
  show ?thesis
  proof (intro exI conjI allI impI)
    show "exprAnalyzeOrTerm_choose env chngToIN a = (a2, True)" by (rule r)
    show "length a2 = length a" using len2 len1 by simp
  next
    fix j assume j: "j < length a"
    show "pExpr (a2 ! j) = pExpr (a ! j)"
      using p2(1) [of j] f1(1) [OF j] j len1 by simp
  next
    fix j assume j: "j < n"
    then have ja: "j < length a" using nl by simp
    have "leftCursor (a ! j) = T" using orig [OF j] by (simp add: or_orig_def)
    then show "wtFlags (a2 ! j) AND TERM_OR_OK \<noteq> 0"
      using p2(2) [of j] f1(2) [OF ja] ja len1 by simp
  next
    fix j assume j: "n \<le> j \<and> j < length a"
    then have "leftCursor (a ! j) \<noteq> T" using twin [of j] by (simp add: or_twin_def)
    then show "wtFlags (a2 ! j) AND TERM_OR_OK = 0"
      using p2(2) [of j] f1(2) [of j] j len1 by simp
  qed
qed


lemma toIN_or:
  assumes nm: "\<not> env_mallocFailed env" and i: "idx < length (wc_a W)"
    and e: "pExpr (wc_a W ! idx) = e"
    and ne: "exprAnalyzeOrTerm_newExpr a e = Some (spec_inExpr e ls rs)"
    and x: "ex_pLeft (last ls) = Some x" "ex_op x = TK_COLUMN"
    and rs: "\<And>r. r \<in> set rs \<Longrightarrow>
        exprTableUsage (env_maskSet env) (Some r) AND getMask (env_maskSet env) (ex_iTable x) = 0"
  shows "\<exists>W'. exprAnalyzeOrTerm_toIN (exprAnalyze (Suc fuel) env) W idx a = Some W'
     \<and> length (wc_a W') = Suc (length (wc_a W)) \<and> wc_op W' = wc_op W
     \<and> (\<forall>j<length (wc_a W). j \<noteq> idx \<longrightarrow> wc_a W' ! j = wc_a W ! j)
     \<and> pExpr (wc_a W' ! idx) = e \<and> eOperator (wc_a W' ! idx) = WO_NOOP
     \<and> nChild (wc_a W' ! idx) = 1
     \<and> pExpr (wc_a W' ! length (wc_a W)) = spec_inExpr e ls rs
     \<and> wtFlags (wc_a W' ! length (wc_a W)) = TERM_VIRTUAL OR TERM_DYNAMIC
     \<and> iParent (wc_a W' ! length (wc_a W)) = int idx
     \<and> eOperator (wc_a W' ! length (wc_a W)) = WO_IN
     \<and> leftCursor (wc_a W' ! length (wc_a W)) = ex_iTable x
     \<and> leftColumn (wc_a W' ! length (wc_a W)) = ex_iColumn x"
proof -
  define N where "N = length (wc_a W)"
  define t where "t = \<lparr>pExpr = spec_inExpr e ls rs, iParent = - 1, leftCursor = 0, leftColumn = 0,
                eOperator = 0, wtFlags = TERM_VIRTUAL OR TERM_DYNAMIC, nChild = 0,
                prereqRight = 0, prereqAll = 0\<rparr>"
  define W4 where "W4 = W\<lparr>wc_a := wc_a W @ [t]\<rparr>"
  have ins: "whereClauseInsert W (spec_inExpr e ls rs) (TERM_VIRTUAL OR TERM_DYNAMIC) = Some (W4, N)"
    by (simp add: insert_eq in_sel W4_def t_def N_def)
  have N4: "N < length (wc_a W4)" by (simp add: W4_def N_def)
  have e4: "pExpr (wc_a W4 ! N) = spec_inExpr e ls rs"
    by (simp add: W4_def N_def t_def)
  have "\<exists>F. exprAnalyze (Suc fuel) env W4 N = Some (updTerm W4 N F)
     \<and> (\<forall>t. pExpr (F t) = pExpr t \<and> wtFlags (F t) = wtFlags t \<and> nChild (F t) = nChild t
          \<and> leftCursor (F t) = ex_iTable x \<and> leftColumn (F t) = ex_iColumn x
          \<and> eOperator (F t) = WO_IN)"
    by (rule analyze_in_term [OF nm N4 e4 x]) (rule rs)
  then obtain F where an: "exprAnalyze (Suc fuel) env W4 N = Some (updTerm W4 N F)"
    and F: "\<And>t. pExpr (F t) = pExpr t \<and> wtFlags (F t) = wtFlags t \<and> nChild (F t) = nChild t
          \<and> leftCursor (F t) = ex_iTable x \<and> leftColumn (F t) = ex_iColumn x
          \<and> eOperator (F t) = WO_IN"
    by (elim exE conjE) simp
  have r: "exprAnalyzeOrTerm_toIN (exprAnalyze (Suc fuel) env) W idx a =
      Some (updTerm (updTerm (updTerm (updTerm W4 N F) N (\<lambda>t. t\<lparr>iParent := int idx\<rparr>))
                 idx (\<lambda>t. t\<lparr>nChild := 1\<rparr>)) idx (\<lambda>t. t\<lparr>eOperator := WO_NOOP\<rparr>))"
    using e ne ins an by (simp add: exprAnalyzeOrTerm_toIN_def)
  have iN: "idx < N" "idx \<noteq> N" using i by (simp_all add: N_def)
  show ?thesis
    unfolding r N_def [symmetric]
    apply (rule exI, rule conjI, rule refl)
    using iN e F
    apply (simp add: updTerm_def W4_def nth_append N_def [symmetric] t_def)
    done
qed


lemma orTerm_to_IN:
  assumes nm: "\<not> env_mallocFailed env" and i: "idx < length (wc_a W)"
    and e: "pExpr (wc_a W ! idx) = e"
    and split: "whereSplit whereClauseInit (Some e) TK_OR = Some pOrWc"
    and ls: "map pExpr (wc_a pOrWc) = ls" and ne: "ls \<noteq> []"
    and eq: "\<And>l. l \<in> set ls \<Longrightarrow> spec_eqTerm (env_maskSet env) T C l"
    and rs: "map ex_pRight ls = map Some rs"
    and mT: "getMask (env_maskSet env) T \<noteq> 0" and T0: "0 \<le> T"
  shows "\<exists>W'. exprAnalyzeOrTerm env (exprAnalyze (Suc fuel) env) W idx = Some W'
     \<and> length (wc_a W') = Suc (length (wc_a W)) \<and> wc_op W' = wc_op W
     \<and> (\<forall>j<length (wc_a W). j \<noteq> idx \<longrightarrow> wc_a W' ! j = wc_a W ! j)
     \<and> pExpr (wc_a W' ! idx) = e \<and> eOperator (wc_a W' ! idx) = WO_NOOP
     \<and> nChild (wc_a W' ! idx) = 1
     \<and> pExpr (wc_a W' ! length (wc_a W)) = spec_inExpr e ls rs
     \<and> wtFlags (wc_a W' ! length (wc_a W)) = TERM_VIRTUAL OR TERM_DYNAMIC
     \<and> iParent (wc_a W' ! length (wc_a W)) = int idx
     \<and> eOperator (wc_a W' ! length (wc_a W)) = WO_IN
     \<and> leftCursor (wc_a W' ! length (wc_a W)) = T
     \<and> leftColumn (wc_a W' ! length (wc_a W)) = C"
proof -
  let ?ms = "env_maskSet env"
  let ?A = "exprAnalyze (Suc fuel) env"
  define n where "n = length (wc_a pOrWc)"
  have n0: "0 < n" using ls ne by (auto simp: n_def)
  have lsn: "length ls = n" using ls by (auto simp: n_def)
  have lsj: "pExpr (wc_a pOrWc ! j) = ls ! j" if "j < n" for j
    using that ls by (auto simp: n_def)
  from whereSplit_frame [OF split]
  have fresh: "wc_a pOrWc ! j = plainTerm (pExpr (wc_a pOrWc ! j)) 0 0 0" if "j < n" for j
    using that by (simp add: whereClauseInit_def n_def)
  have inv0: "or_inv ?ms T C n n (wc_a pOrWc)"
    unfolding or_inv_def
  proof (intro conjI allI impI)
    show "n \<le> n" by simp
    show "n \<le> length (wc_a pOrWc)" by (simp add: n_def)
  next
    fix j assume j: "j < n"
    show "wc_a pOrWc ! j = plainTerm (pExpr (wc_a pOrWc ! j)) 0 0 0" by (rule fresh [OF j])
    have "ls ! j \<in> set ls" using j lsn by simp
    then show "spec_eqTerm ?ms T C (pExpr (wc_a pOrWc ! j))"
      using eq lsj [OF j] by simp
  next
    fix j assume "n \<le> j \<and> j < n"
    then have False by linarith
    then show "or_orig ?ms T C (wc_a pOrWc ! j)" ..
  next
    fix j assume "n \<le> j \<and> j < length (wc_a pOrWc)"
    then have False unfolding n_def by linarith
    then show "or_twin n T (wc_a pOrWc ! j)" ..
  qed
  from analyzeAll_or [OF nm mT T0 inv0, of fuel]
  obtain Wor where all: "exprAnalyzeAll_loop ?A pOrWc n = Some Wor
       \<and> or_inv ?ms T C n 0 (wc_a Wor)
       \<and> map pExpr (take n (wc_a Wor)) = map pExpr (take n (wc_a pOrWc))"
    by (rule exE)
  note loop = all [THEN conjunct1]
  note inv = all [THEN conjunct2, THEN conjunct1]
  have pe: "map pExpr (take n (wc_a Wor)) = ls"
    using all [THEN conjunct2, THEN conjunct2] ls by (simp add: n_def)
  have aa: "exprAnalyzeAll ?A pOrWc = Some Wor"
    using loop by (simp add: exprAnalyzeAll_def n_def)
  have nl: "n \<le> length (wc_a Wor)" using inv by (simp add: or_inv_def)
  have full: "NOT 0 AND getMask ?ms T = getMask ?ms T"
    by simp
  from tables_or [OF mT inv full full, of ?A 0]
  obtain ix ch where tb: "exprAnalyzeOrTerm_tables env ?A (wc_a Wor) 0 (NOT 0) (NOT 0)
        = Some (wc_a Wor, ix, ch)"
    and ix: "ix AND getMask ?ms T = getMask ?ms T" and ch: "ch AND getMask ?ms T = getMask ?ms T"
    by (elim exE conjE)
  have ixz: "ix \<noteq> 0" using ix mT by auto
  have chz: "ch \<noteq> 0" using ch mT by auto
  from choose_or [OF inv n0 T0 ch mT]
  obtain a2 where c2: "exprAnalyzeOrTerm_choose env ch (wc_a Wor) = (a2, True)
     \<and> length a2 = length (wc_a Wor)
     \<and> (\<forall>j<length (wc_a Wor). pExpr (a2 ! j) = pExpr (wc_a Wor ! j))
     \<and> (\<forall>j<n. wtFlags (a2 ! j) AND TERM_OR_OK \<noteq> 0)
     \<and> (\<forall>j. n \<le> j \<and> j < length (wc_a Wor) \<longrightarrow> wtFlags (a2 ! j) AND TERM_OR_OK = 0)"
    by (rule exE)
  note cho = c2 [THEN conjunct1]
  note len2 = c2 [THEN conjunct2, THEN conjunct1]
  note pe2 = c2 [THEN conjunct2, THEN conjunct2, THEN conjunct1, rule_format]
  note ok2 = c2 [THEN conjunct2, THEN conjunct2, THEN conjunct2, THEN conjunct1, rule_format]
  note no2 = c2 [THEN conjunct2, THEN conjunct2, THEN conjunct2, THEN conjunct2, rule_format]
  have pls: "map pExpr (take n a2) = ls"
  proof -
    have "map pExpr (take n a2) = map pExpr (take n (wc_a Wor))"
      by (rule nth_equalityI) (use nl len2 pe2 in simp_all)
    then show ?thesis using pe by simp
  qed
  have "last ls \<in> set ls" using ne by simp
  from eq [OF this] obtain x where x: "ex_pLeft (last ls) = Some x" "ex_op x = TK_COLUMN"
    "ex_iTable x = T" "ex_iColumn x = C"
    by (auto simp: spec_eqTerm_def spec_eqClaim_def split: option.splits)
  have nw: "exprAnalyzeOrTerm_newExpr a2 e = Some (spec_inExpr e ls rs)"
    by (rule newExpr_or [OF n0 _ ok2 _ pls rs x(1)]) (use nl len2 no2 in simp_all)
  have ru: "exprTableUsage ?ms (Some r) AND getMask ?ms (ex_iTable x) = 0" if "r \<in> set rs" for r
  proof -
    have "Some r \<in> set (map ex_pRight ls)" using that rs by simp
    then obtain l where l: "l \<in> set ls" "ex_pRight l = Some r" by auto
    from eq [OF l(1)] l(2) show ?thesis
      by (auto simp: spec_eqTerm_def x(3))
  qed
  define W3 where "W3 = (updTerm (updTerm W idx (\<lambda>t. t\<lparr>wtFlags := wtFlags t OR TERM_ORINFO\<rparr>)) idx
      (\<lambda>t. t\<lparr>eOperator := WO_OR\<rparr>))\<lparr>wc_orInfo := wc_orInfo W @ [(idx, ix, a2)]\<rparr>"
  have W3: "length (wc_a W3) = length (wc_a W)" "wc_op W3 = wc_op W"
    "pExpr (wc_a W3 ! idx) = e" "\<And>j. j \<noteq> idx \<Longrightarrow> wc_a W3 ! j = wc_a W ! j"
    using i e by (simp_all add: W3_def updTerm_def)
  have i3: "idx < length (wc_a W3)" using i W3(1) by simp
  have "\<exists>W'. exprAnalyzeOrTerm_toIN ?A W3 idx a2 = Some W'
     \<and> length (wc_a W') = Suc (length (wc_a W3)) \<and> wc_op W' = wc_op W3
     \<and> (\<forall>j<length (wc_a W3). j \<noteq> idx \<longrightarrow> wc_a W' ! j = wc_a W3 ! j)
     \<and> pExpr (wc_a W' ! idx) = e \<and> eOperator (wc_a W' ! idx) = WO_NOOP
     \<and> nChild (wc_a W' ! idx) = 1
     \<and> pExpr (wc_a W' ! length (wc_a W3)) = spec_inExpr e ls rs
     \<and> wtFlags (wc_a W' ! length (wc_a W3)) = TERM_VIRTUAL OR TERM_DYNAMIC
     \<and> iParent (wc_a W' ! length (wc_a W3)) = int idx
     \<and> eOperator (wc_a W' ! length (wc_a W3)) = WO_IN
     \<and> leftCursor (wc_a W' ! length (wc_a W3)) = ex_iTable x
     \<and> leftColumn (wc_a W' ! length (wc_a W3)) = ex_iColumn x"
    by (rule toIN_or [OF nm i3 W3(3) nw x(1,2)]) (rule ru)
  then obtain W' where t: "exprAnalyzeOrTerm_toIN ?A W3 idx a2 = Some W'"
    and props: "length (wc_a W') = Suc (length (wc_a W3)) \<and> wc_op W' = wc_op W3
     \<and> (\<forall>j<length (wc_a W3). j \<noteq> idx \<longrightarrow> wc_a W' ! j = wc_a W3 ! j)
     \<and> pExpr (wc_a W' ! idx) = e \<and> eOperator (wc_a W' ! idx) = WO_NOOP
     \<and> nChild (wc_a W' ! idx) = 1
     \<and> pExpr (wc_a W' ! length (wc_a W3)) = spec_inExpr e ls rs
     \<and> wtFlags (wc_a W' ! length (wc_a W3)) = TERM_VIRTUAL OR TERM_DYNAMIC
     \<and> iParent (wc_a W' ! length (wc_a W3)) = int idx
     \<and> eOperator (wc_a W' ! length (wc_a W3)) = WO_IN
     \<and> leftCursor (wc_a W' ! length (wc_a W3)) = ex_iTable x
     \<and> leftColumn (wc_a W' ! length (wc_a W3)) = ex_iColumn x"
    by (elim exE conjE) simp
  have r: "exprAnalyzeOrTerm env ?A W idx = Some W'"
    using e split aa tb ixz chz cho t
    by (simp add: exprAnalyzeOrTerm_def Let_def W3_def)
  show ?thesis
    apply (rule exI [of _ W'], rule conjI, rule r)
    using props W3 x(3,4) by simp
qed


text \<open>
  C5, as amended.  Let the term \<open>idxTerm\<close> of a clause be the OR expression \<open>e\<close>, and
  let every operand of \<open>e\<close>, as \<^verbatim>\<open>whereSplit\<close> separates them, be an equality whose
  left operand is the column \<open>C\<close> of the cursor \<open>T\<close>, whose right operand has no
  affinity or that of the column, and whose right operand does not use the cursor \<open>T\<close>;
  let \<open>T\<close> be a cursor of the mask set.  With two levels of calls the analysis returns,
  and appends one term: the IN operator with the column on the left and the list of the
  right operands, marked virtual and dynamic, whose parent is the OR term, and which has
  been analysed (its operator is \<^verbatim>\<open>WO_IN\<close> on the column \<open>C\<close> of \<open>T\<close>).  The OR term
  has one child and the operator \<^verbatim>\<open>WO_NOOP\<close>, not \<^verbatim>\<open>WO_OR\<close>, and the other terms of
  the clause are as before.
\<close>

theorem exprAnalyze_or_to_in:
  assumes nm: "\<not> env_mallocFailed env" and i: "idxTerm < length (wc_a pWC)"
    and e: "pExpr (wc_a pWC ! idxTerm) = e" and op: "ex_op e = TK_OR"
    and split: "whereSplit whereClauseInit (Some e) TK_OR = Some pOrWc"
    and ls: "map pExpr (wc_a pOrWc) = ls" and ne: "ls \<noteq> []"
    and eq: "list_all (spec_eqTerm (env_maskSet env) T C) ls"
    and rs: "map ex_pRight ls = map Some rs"
    and mT: "getMask (env_maskSet env) T \<noteq> 0" and T0: "0 \<le> T"
  shows "\<exists>pWC'. exprAnalyze (Suc (Suc fuel)) env pWC idxTerm = Some pWC'
     \<and> length (wc_a pWC') = Suc (length (wc_a pWC))
     \<and> (\<forall>j<length (wc_a pWC). j \<noteq> idxTerm \<longrightarrow> wc_a pWC' ! j = wc_a pWC ! j)
     \<and> pExpr (wc_a pWC' ! idxTerm) = e
     \<and> eOperator (wc_a pWC' ! idxTerm) = WO_NOOP
     \<and> nChild (wc_a pWC' ! idxTerm) = 1
     \<and> pExpr (wc_a pWC' ! length (wc_a pWC)) = spec_inExpr e ls rs
     \<and> wtFlags (wc_a pWC' ! length (wc_a pWC)) = TERM_VIRTUAL OR TERM_DYNAMIC
     \<and> iParent (wc_a pWC' ! length (wc_a pWC)) = int idxTerm
     \<and> eOperator (wc_a pWC' ! length (wc_a pWC)) = WO_IN
     \<and> leftCursor (wc_a pWC' ! length (wc_a pWC)) = T
     \<and> leftColumn (wc_a pWC' ! length (wc_a pWC)) = C"
proof -
  obtain W1 pl pa er where head: "exprAnalyze_head env pWC idxTerm = (W1, pl, pa, er)"
    by (cases "exprAnalyze_head env pWC idxTerm") auto
  from head_frame [OF head] obtain F where W1: "W1 = updTerm pWC idxTerm F"
    and F: "\<And>t. pExpr (F t) = pExpr t \<and> wtFlags (F t) = wtFlags t \<and> nChild (F t) = nChild t"
    by (elim exE conjE) simp
  have e1: "pExpr (wc_a W1 ! idxTerm) = e" and i1: "idxTerm < length (wc_a W1)"
    and len1: "length (wc_a W1) = length (wc_a pWC)"
    and same1: "\<And>j. j \<noteq> idxTerm \<Longrightarrow> wc_a W1 ! j = wc_a pWC ! j"
    using W1 F i e by simp_all
  have nal: "\<not> allowedOp (ex_op e)" "ex_op e \<noteq> TK_BETWEEN" "ex_op e \<noteq> TK_FUNCTION"
    "ex_op e \<noteq> TK_NOTNULL"
    using op by (simp_all add: allowedOp_def)
  have eq': "spec_eqTerm (env_maskSet env) T C l" if "l \<in> set ls" for l
    using eq that by (simp add: list_all_iff)
  have "\<exists>W'. exprAnalyzeOrTerm env (exprAnalyze (Suc fuel) env) W1 idxTerm = Some W'
     \<and> length (wc_a W') = Suc (length (wc_a W1)) \<and> wc_op W' = wc_op W1
     \<and> (\<forall>j<length (wc_a W1). j \<noteq> idxTerm \<longrightarrow> wc_a W' ! j = wc_a W1 ! j)
     \<and> pExpr (wc_a W' ! idxTerm) = e \<and> eOperator (wc_a W' ! idxTerm) = WO_NOOP
     \<and> nChild (wc_a W' ! idxTerm) = 1
     \<and> pExpr (wc_a W' ! length (wc_a W1)) = spec_inExpr e ls rs
     \<and> wtFlags (wc_a W' ! length (wc_a W1)) = TERM_VIRTUAL OR TERM_DYNAMIC
     \<and> iParent (wc_a W' ! length (wc_a W1)) = int idxTerm
     \<and> eOperator (wc_a W' ! length (wc_a W1)) = WO_IN
     \<and> leftCursor (wc_a W' ! length (wc_a W1)) = T
     \<and> leftColumn (wc_a W' ! length (wc_a W1)) = C"
    by (rule orTerm_to_IN [OF nm i1 e1 split ls ne _ rs mT T0]) (rule eq')
  then obtain W' where ot: "exprAnalyzeOrTerm env (exprAnalyze (Suc fuel) env) W1 idxTerm = Some W'"
    and props: "length (wc_a W') = Suc (length (wc_a W1)) \<and> wc_op W' = wc_op W1
     \<and> (\<forall>j<length (wc_a W1). j \<noteq> idxTerm \<longrightarrow> wc_a W' ! j = wc_a W1 ! j)
     \<and> pExpr (wc_a W' ! idxTerm) = e \<and> eOperator (wc_a W' ! idxTerm) = WO_NOOP
     \<and> nChild (wc_a W' ! idxTerm) = 1
     \<and> pExpr (wc_a W' ! length (wc_a W1)) = spec_inExpr e ls rs
     \<and> wtFlags (wc_a W' ! length (wc_a W1)) = TERM_VIRTUAL OR TERM_DYNAMIC
     \<and> iParent (wc_a W' ! length (wc_a W1)) = int idxTerm
     \<and> eOperator (wc_a W' ! length (wc_a W1)) = WO_IN
     \<and> leftCursor (wc_a W' ! length (wc_a W1)) = T
     \<and> leftColumn (wc_a W' ! length (wc_a W1)) = C"
    by (elim exE conjE) simp
  have e': "pExpr (wc_a W' ! idxTerm) = e" using props by simp
  have lk: "exprAnalyze_like env (exprAnalyze (Suc fuel) env) W' idxTerm = Some W'"
    by (rule like_none) (simp add: e' nal)
  have mt: "exprAnalyze_match env W' idxTerm = Some W'"
    by (rule match_none) (simp add: e' nal)
  have nn: "exprAnalyze_notnull env W' idxTerm = Some W'"
    by (rule notnull_none) (simp add: e' nal)
  have res: "exprAnalyze (Suc (Suc fuel)) env pWC idxTerm =
      Some (updTerm W' idxTerm (\<lambda>t. t\<lparr>prereqRight := prereqRight t OR er\<rparr>))"
    using nm i head e nal op ot lk mt nn by (simp add: exprAnalyze.simps)
  have il: "idxTerm < length (wc_a W')" "idxTerm \<noteq> length (wc_a pWC)"
    using props i len1 by simp_all
  show ?thesis
    apply (rule exI, rule conjI, rule res)
    using props len1 same1 il i
    by (simp add: updTerm_def nth_list_update)
qed

text \<open>
  The claim C5 asks of the operands only that they are equalities on one column of one
  table, with compatible affinity.  Both operands of \<^verbatim>\<open>t.a = t.b + 5 OR t.a = 5\<close> are
  such equalities, but the right operand of the first uses the table \<^verbatim>\<open>t\<close>: no IN
  term is appended, and the operator of the OR term is \<^verbatim>\<open>WO_OR\<close>.  The same happens
  for \<^verbatim>\<open>t.a = t.b OR t.a = 5\<close>.  In \<^verbatim>\<open>v.a = 5 OR v.a = 5\<close>, where the cursor 7 of
  \<^verbatim>\<open>v\<close> has no bit in the mask set, both operands are such equalities as well: no IN
  term is appended, and the OR term is left with no operator at all.
\<close>

theorem exprAnalyze_or_same_table_counterexample:
  "list_all (spec_eqClaim 0 1)
     (map pExpr (wc_a (the (whereSplit whereClauseInit (Some orSameTable) TK_OR))))
   \<and> map eOperator (wc_a (the (exprAnalyze 2 (likeEnv False) (andClause orSameTable) 0)))
       = [WO_OR]
   \<and> list_all (spec_eqClaim 0 1)
     (map pExpr (wc_a (the (whereSplit whereClauseInit (Some orSameColumn) TK_OR))))
   \<and> map eOperator (wc_a (the (exprAnalyze 2 (likeEnv False) (andClause orSameColumn) 0)))
       = [WO_OR]
   \<and> getMask (env_maskSet (likeEnv False)) 7 = 0
   \<and> list_all (spec_eqClaim 7 1)
     (map pExpr (wc_a (the (whereSplit whereClauseInit (Some orUnknownCursor) TK_OR))))
   \<and> map eOperator (wc_a (the (exprAnalyze 2 (likeEnv False) (andClause orUnknownCursor) 0)))
       = [0]"
  by code_simp


text \<open>
  The theorem at \<^verbatim>\<open>t.a = 5 OR t.a = u.c\<close>: the new term is \<^verbatim>\<open>t.a IN (5, u.c)\<close>.
\<close>

theorem exprAnalyze_or_to_in_witness:
  "\<not> env_mallocFailed (likeEnv False)
   \<and> (0::nat) < length (wc_a (andClause orOtherTable))
   \<and> ex_op orOtherTable = TK_OR
   \<and> map pExpr (wc_a (the (whereSplit whereClauseInit (Some orOtherTable) TK_OR)))
       = [binExpr TK_EQ (colExpr 0 1) numExpr, binExpr TK_EQ (colExpr 0 1) (colExpr 1 3)]
   \<and> list_all (spec_eqTerm (env_maskSet (likeEnv False)) 0 1)
        [binExpr TK_EQ (colExpr 0 1) numExpr, binExpr TK_EQ (colExpr 0 1) (colExpr 1 3)]
   \<and> getMask (env_maskSet (likeEnv False)) 0 \<noteq> 0
   \<and> length (wc_a (the (exprAnalyze 2 (likeEnv False) (andClause orOtherTable) 0))) = 2
   \<and> eOperator (wc_a (the (exprAnalyze 2 (likeEnv False) (andClause orOtherTable) 0)) ! 0)
       = WO_NOOP
   \<and> nChild (wc_a (the (exprAnalyze 2 (likeEnv False) (andClause orOtherTable) 0)) ! 0) = 1
   \<and> pExpr (wc_a (the (exprAnalyze 2 (likeEnv False) (andClause orOtherTable) 0)) ! 1)
       = spec_inExpr orOtherTable
           [binExpr TK_EQ (colExpr 0 1) numExpr, binExpr TK_EQ (colExpr 0 1) (colExpr 1 3)]
           [numExpr, colExpr 1 3]
   \<and> wtFlags (wc_a (the (exprAnalyze 2 (likeEnv False) (andClause orOtherTable) 0)) ! 1)
       = TERM_VIRTUAL OR TERM_DYNAMIC
   \<and> iParent (wc_a (the (exprAnalyze 2 (likeEnv False) (andClause orOtherTable) 0)) ! 1) = 0
   \<and> eOperator (wc_a (the (exprAnalyze 2 (likeEnv False) (andClause orOtherTable) 0)) ! 1)
       = WO_IN
   \<and> leftCursor (wc_a (the (exprAnalyze 2 (likeEnv False) (andClause orOtherTable) 0)) ! 1) = 0
   \<and> leftColumn (wc_a (the (exprAnalyze 2 (likeEnv False) (andClause orOtherTable) 0)) ! 1) = 1"
proof -
  let ?env = "likeEnv False"
  let ?W = "andClause orOtherTable"
  let ?ls = "[binExpr TK_EQ (colExpr 0 1) numExpr, binExpr TK_EQ (colExpr 0 1) (colExpr 1 3)]"
  let ?rs = "[numExpr, colExpr 1 3]"
  let ?S = "the (whereSplit whereClauseInit (Some orOtherTable) TK_OR)"
  have h1: "\<not> env_mallocFailed ?env" by code_simp
  have h2: "(0::nat) < length (wc_a ?W)" by code_simp
  have h3: "pExpr (wc_a ?W ! 0) = orOtherTable" by code_simp
  have h4: "ex_op orOtherTable = TK_OR" by code_simp
  have h5: "whereSplit whereClauseInit (Some orOtherTable) TK_OR = Some ?S" by code_simp
  have h6: "map pExpr (wc_a ?S) = ?ls" by code_simp
  have h7: "?ls \<noteq> []" by simp
  have h8: "list_all (spec_eqTerm (env_maskSet ?env) 0 1) ?ls" by code_simp
  have h9: "map ex_pRight ?ls = map Some ?rs" by code_simp
  have h10: "getMask (env_maskSet ?env) 0 \<noteq> 0" by code_simp
  have h11: "(0::int) \<le> 0" by simp
  from exprAnalyze_or_to_in [OF h1 h2 h3 h4 h5 h6 h7 h8 h9 h10 h11, of 0]
  obtain pWC' where all: "exprAnalyze (Suc (Suc 0)) ?env ?W 0 = Some pWC'
     \<and> length (wc_a pWC') = Suc (length (wc_a ?W))
     \<and> (\<forall>j<length (wc_a ?W). j \<noteq> 0 \<longrightarrow> wc_a pWC' ! j = wc_a ?W ! j)
     \<and> pExpr (wc_a pWC' ! 0) = orOtherTable
     \<and> eOperator (wc_a pWC' ! 0) = WO_NOOP
     \<and> nChild (wc_a pWC' ! 0) = 1
     \<and> pExpr (wc_a pWC' ! length (wc_a ?W)) = spec_inExpr orOtherTable ?ls ?rs
     \<and> wtFlags (wc_a pWC' ! length (wc_a ?W)) = TERM_VIRTUAL OR TERM_DYNAMIC
     \<and> iParent (wc_a pWC' ! length (wc_a ?W)) = int 0
     \<and> eOperator (wc_a pWC' ! length (wc_a ?W)) = WO_IN
     \<and> leftCursor (wc_a pWC' ! length (wc_a ?W)) = 0
     \<and> leftColumn (wc_a pWC' ! length (wc_a ?W)) = 1"
    by (rule exE)
  have two: "exprAnalyze 2 = exprAnalyze (Suc (Suc 0))"
    by (simp add: numeral_2_eq_2)
  have t: "the (exprAnalyze 2 ?env ?W 0) = pWC'"
    using all by (simp only: two option.sel)
  have l1: "length (wc_a ?W) = 1" by code_simp
  show ?thesis
    unfolding t
    using h1 h2 h4 h6 h8 h10 all [unfolded l1] by simp
qed

end
